theory Spec2Isabelle
  imports Main "HOL-Library.Sublist" "HOL-Library.AList"
begin

section \<open>Go library functions used by the loader\<close>

text \<open>
  Go strings are byte sequences; they are modelled as \<^typ>\<open>string\<close> (lists of 8-bit
  characters). The functions below follow package \<^verbatim>\<open>strings\<close> and \<^verbatim>\<open>strconv\<close> of the
  Go standard library, for the arguments the loader passes to them.
\<close>

definition HasSuffix :: "string \<Rightarrow> string \<Rightarrow> bool" where
  "HasSuffix s suf = suffix suf s"

definition TrimSuffix :: "string \<Rightarrow> string \<Rightarrow> string" where
  "TrimSuffix s suf = (if HasSuffix s suf then take (length s - length suf) s else s)"

fun Contains :: "string \<Rightarrow> string \<Rightarrow> bool" where
  "Contains [] sub = (sub = [])"
| "Contains (c # cs) sub = (prefix sub (c # cs) \<or> Contains cs sub)"

text \<open>\<^verbatim>\<open>strings.Split(s, sep)\<close> for a one-byte separator: never empty.\<close>

fun Split :: "string \<Rightarrow> char \<Rightarrow> string list" where
  "Split [] sep = [[]]"
| "Split (c # cs) sep =
     (let r = Split cs sep
      in if c = sep then [] # r else (c # hd r) # tl r)"

fun Join :: "string list \<Rightarrow> string \<Rightarrow> string" where
  "Join [] sep = []"
| "Join [p] sep = p"
| "Join (p # q # ps) sep = p @ sep @ Join (q # ps) sep"

datatype num_error = ErrSyntax | ErrRange

definition is_digit :: "char \<Rightarrow> bool" where
  "is_digit c = (c \<in> set ''0123456789'')"

definition digit_val :: "char \<Rightarrow> int" where
  "digit_val c = of_char c - 48"

definition maxUint64 :: int where
  "maxUint64 = 2 ^ 64 - 1"

text \<open>
  The digit loop of \<^verbatim>\<open>strconv.ParseUint(s, 10, 64)\<close>, with the \<^verbatim>\<open>uint64\<close>
  accumulator held as an integer below \<open>2 ^ 64\<close> and its overflow tests written out: a
  byte that is no decimal digit is a syntax error with value 0; an overflow of the
  accumulator stops the loop at once with the largest value and a range error.
\<close>

fun parse_digits :: "int \<Rightarrow> string \<Rightarrow> int \<times> num_error option" where
  "parse_digits n [] = (n, None)"
| "parse_digits n (c # cs) =
     (if \<not> is_digit c then (0, Some ErrSyntax)
      else if n \<ge> maxUint64 div 10 + 1 then (maxUint64, Some ErrRange)
      else if n * 10 + digit_val c > maxUint64 then (maxUint64, Some ErrRange)
      else parse_digits (n * 10 + digit_val c) cs)"

definition ParseUint :: "string \<Rightarrow> int \<times> num_error option" where
  "ParseUint s = (if s = [] then (0, Some ErrSyntax) else parse_digits 0 s)"

text \<open>
  \<^verbatim>\<open>strconv.ParseInt(s, 10, 0)\<close> with 64-bit \<^verbatim>\<open>int\<close>: an optional sign, then
  \<^verbatim>\<open>ParseUint\<close>; \<open>signed_result\<close> is the check that follows: a syntax error gives 0, a
  value out of range gives the nearest bound together with the range error.
\<close>

definition signed_result :: "bool \<Rightarrow> int \<times> num_error option \<Rightarrow> int \<times> num_error option" where
  "signed_result neg r =
     (case r of (un, err) \<Rightarrow>
        if err = Some ErrSyntax then (0, Some ErrSyntax)
        else if \<not> neg \<and> un \<ge> 2 ^ 63 then (2 ^ 63 - 1, Some ErrRange)
        else if neg \<and> un > 2 ^ 63 then (- (2 ^ 63), Some ErrRange)
        else (if neg then - un else un, None))"

definition ParseInt :: "string \<Rightarrow> int \<times> num_error option" where
  "ParseInt s =
     (if s = [] then (0, Some ErrSyntax)
      else signed_result (hd s = CHR ''-'')
             (ParseUint (if hd s = CHR ''+'' \<or> hd s = CHR ''-'' then tl s else s)))"

text \<open>
  \<^verbatim>\<open>strconv.Atoi\<close> is \<^verbatim>\<open>ParseInt(s, 10, 0)\<close> converted to \<^verbatim>\<open>int\<close>; its fast path for
  short inputs computes the same value and error.
\<close>

definition Atoi :: "string \<Rightarrow> int \<times> num_error option" where
  "Atoi s = ParseInt s"

section \<open>Errors\<close>

text \<open>
  Go error values. \<open>New\<close> is \<^verbatim>\<open>errors.New\<close>, \<open>Newf\<close> is \<^verbatim>\<open>fmt.Errorf\<close> with
  \<^verbatim>\<open>%d\<close> arguments only, \<open>Wrapf\<close> is \<^verbatim>\<open>fmt.Errorf\<close> with \<^verbatim>\<open>%d\<close> arguments and a
  final \<^verbatim>\<open>%w\<close> that keeps the wrapped error. Messages are the source's, with the
  accented letters written without their accents. \<open>ReadDirError\<close> is the error
  \<^verbatim>\<open>os.ReadDir\<close> returned, \<open>DbError\<close> an error reported by the database engine,
  \<open>CtxDone\<close> the value of \<^verbatim>\<open>ctx.Err()\<close> once the context is over.
\<close>

datatype error =
    ReadDirError string
  | DbError string
  | CtxDone
  | UnsupportedDriver string
  | New string
  | Newf string "int list"
  | Wrapf string "int list" error

section \<open>Artifact loader (loader.go)\<close>

text \<open>
  Modelled from the spec: the declaration of struct \<^verbatim>\<open>Migration\<close> is not among the
  sources. Its fields are the four that \<^verbatim>\<open>Load\<close>, \<^verbatim>\<open>Up\<close>, \<^verbatim>\<open>Down\<close> and \<^verbatim>\<open>DownN\<close>
  read and write: an integer version, a name, and the apply and revert scripts, the
  empty string standing for an absent script.
\<close>

record Migration =
  Version :: int
  Name :: string
  UpSQL :: string
  DownSQL :: string

text \<open>
  A directory entry is a file name with the result of \<^verbatim>\<open>os.ReadFile\<close> on it
  (\<open>None\<close> when the read fails). A directory is the result of \<^verbatim>\<open>os.ReadDir\<close>: the
  message of its error, or the entries in the order \<^verbatim>\<open>os.ReadDir\<close> lists them.
\<close>

type_synonym dirent = "string \<times> string option"

type_synonym directory = "string + dirent list"

definition migrationName :: "string list \<Rightarrow> string" where
  "migrationName parts =
     (let nameParts = tl parts
      in if length nameParts > 0
         then TrimSuffix (TrimSuffix (Join nameParts ''_'') ''.up.sql'') ''.down.sql''
         else [])"

text \<open>
  The body of the loop over the files, for one file. The Go map from version to entry is
  an association list with one pair per key. \<open>get_entry\<close> is the lookup that creates the
  entry of a new version, \<open>set_script\<close> the assignment of the file's text to the apply or
  the revert half.
\<close>

definition get_entry :: "(int \<times> Migration) list \<Rightarrow> int \<Rightarrow> string list \<Rightarrow> Migration" where
  "get_entry m version parts =
     (case map_of m version of
        Some e \<Rightarrow> e
      | None \<Rightarrow> \<lparr>Version = version, Name = migrationName parts, UpSQL = [], DownSQL = []\<rparr>)"

definition set_script :: "string \<Rightarrow> string \<Rightarrow> Migration \<Rightarrow> Migration" where
  "set_script name sql entry =
     (if Contains name ''.up.'' then entry\<lparr>UpSQL := sql\<rparr>
      else if Contains name ''.down.'' then entry\<lparr>DownSQL := sql\<rparr>
      else entry)"

definition load_file :: "dirent \<Rightarrow> (int \<times> Migration) list \<Rightarrow> (int \<times> Migration) list" where
  "load_file f m =
     (case f of (name, data) \<Rightarrow>
        if \<not> HasSuffix name ''.sql'' then m
        else
          let parts = Split name CHR ''_'';
              version = fst (Atoi (hd parts))
          in case data of
               None \<Rightarrow> m
             | Some sql \<Rightarrow>
                 AList.update version (set_script name sql (get_entry m version parts)) m)"

fun load_files :: "dirent list \<Rightarrow> (int \<times> Migration) list \<Rightarrow> (int \<times> Migration) list" where
  "load_files [] m = m"
| "load_files (f # files) m = load_files files (load_file f m)"

text \<open>
  The entries of the map are collected in an unspecified order and sorted by version;
  as the keys of a map are distinct, the sorted sequence is the same whatever that
  order was.
\<close>

definition Load :: "directory \<Rightarrow> error + Migration list" where
  "Load dir =
     (case dir of
        Inl msg \<Rightarrow> Inl (ReadDirError msg)
      | Inr files \<Rightarrow> Inr (sort_key Version (map snd (load_files files []))))"

section \<open>The database\<close>

text \<open>
  The state the runner works on. \<open>objects\<close> is the application schema and data, the
  part migration scripts act on; \<open>ledger\<close> holds the rows of the control table
  \<^verbatim>\<open>schema_migrations\<close> (\<open>None\<close> while the table does not exist), which only the runner
  writes; \<open>lock_table\<close> tells whether the table \<^verbatim>\<open>migration_lock\<close> of the SQLite
  locker exists; \<open>driver\<close> is \<^verbatim>\<open>db.DriverName()\<close>; \<open>rival\<close> is the number of seconds
  for which another caller still holds the coordination lock (0 when it is free);
  \<open>txs\<close> counts the transactions opened with \<^verbatim>\<open>db.Beginx\<close>.

  The SQL engine is a parameter: running a script on the objects gives the objects
  after the statements that ran, and the error of the statement that failed, if any.
  Connection faults are not modelled: opening and committing a transaction succeed.

  The database is one database shared by the connections of the pool (for SQLite a
  database file; with \<^verbatim>\<open>:memory:\<close> every connection of the pool would have a database
  of its own). SQLite admits one writer: while a transaction that has written is open
  on one connection, a statement that writes on another connection waits for the busy
  timeout of the driver (five seconds, the default of \<^verbatim>\<open>go-sqlite3\<close>) and then fails
  with \<^verbatim>\<open>database is locked\<close>; statements that only read are answered. The operations
  of the runner below take a flag \<open>blocked\<close>: the write lock of the database is held by
  the open transaction of the SQLite locker of the same call. The rival is felt by
  \<^verbatim>\<open>Lock\<close> only; a dry-run, which takes no lock, runs as if the database were its own.
\<close>

record 'o world =
  objects :: 'o
  ledger :: "int list option"
  lock_table :: bool
  driver :: string
  rival :: nat
  txs :: nat

type_synonym 'o engine = "string \<Rightarrow> 'o \<Rightarrow> 'o \<times> string option"

definition busy_timeout :: nat where
  "busy_timeout = 5"

subsection \<open>State ledger (state.go)\<close>

text \<open>
  \<^verbatim>\<open>CREATE TABLE IF NOT EXISTS schema_migrations\<close>: a write when the table does not
  exist, nothing otherwise.
\<close>

definition ensure :: "bool \<Rightarrow> 'o world \<Rightarrow> error + 'o world" where
  "ensure blocked w =
     (case ledger w of
        None \<Rightarrow>
          if blocked then Inl (DbError ''database is locked'') else Inr (w\<lparr>ledger := Some []\<rparr>)
      | Some rows \<Rightarrow> Inr w)"

definition applied :: "'o world \<Rightarrow> error + int list" where
  "applied w =
     (case ledger w of
        None \<Rightarrow> Inl (DbError ''no such table: schema_migrations'')
      | Some rows \<Rightarrow> Inr (sort rows))"

text \<open>The source's \<^verbatim>\<open>last\<close>: the first row in descending order of version.\<close>

definition last_version :: "'o world \<Rightarrow> error + int" where
  "last_version w =
     (case ledger w of
        None \<Rightarrow> Inl (DbError ''no such table: schema_migrations'')
      | Some rows \<Rightarrow>
          if rows = [] then Inl (DbError ''sql: no rows in result set'')
          else Inr (last (sort rows)))"

subsection \<open>Transactions\<close>

text \<open>
  A transaction keeps the state at its start and the state its statements have built;
  rolling back returns the former, committing the latter.
\<close>

record 'o tx =
  start :: "'o world"
  cur :: "'o world"

definition Beginx :: "'o world \<Rightarrow> error + 'o tx" where
  "Beginx w = (let w1 = w\<lparr>txs := Suc (txs w)\<rparr> in Inr \<lparr>start = w1, cur = w1\<rparr>)"

text \<open>
  \<^verbatim>\<open>tx.Exec\<close> of a migration script. The script is taken to write when the objects it
  leaves differ from those it was started on; its first statement that writes needs the
  write lock of the database.
\<close>

definition tx_Exec :: "'o engine \<Rightarrow> bool \<Rightarrow> string \<Rightarrow> 'o tx \<Rightarrow> error option \<times> 'o tx" where
  "tx_Exec eng blocked script t =
     (case eng script (objects (cur t)) of
        (ob, r) \<Rightarrow>
          if blocked \<and> ob \<noteq> objects (cur t) then (Some (DbError ''database is locked''), t)
          else (map_option DbError r, t\<lparr>cur := (cur t)\<lparr>objects := ob\<rparr>\<rparr>))"

text \<open>\<^verbatim>\<open>INSERT INTO schema_migrations(version) VALUES(?)\<close>; the version is the primary key.\<close>

definition tx_Insert :: "bool \<Rightarrow> int \<Rightarrow> 'o tx \<Rightarrow> error option \<times> 'o tx" where
  "tx_Insert blocked v t =
     (case ledger (cur t) of
        None \<Rightarrow> (Some (DbError ''no such table: schema_migrations''), t)
      | Some rows \<Rightarrow>
          if blocked then (Some (DbError ''database is locked''), t)
          else if v \<in> set rows
          then (Some (DbError ''UNIQUE constraint failed: schema_migrations.version''), t)
          else (None, t\<lparr>cur := (cur t)\<lparr>ledger := Some (rows @ [v])\<rparr>\<rparr>))"

text \<open>\<^verbatim>\<open>DELETE FROM schema_migrations WHERE version = ?\<close>\<close>

definition tx_Delete :: "bool \<Rightarrow> int \<Rightarrow> 'o tx \<Rightarrow> error option \<times> 'o tx" where
  "tx_Delete blocked v t =
     (case ledger (cur t) of
        None \<Rightarrow> (Some (DbError ''no such table: schema_migrations''), t)
      | Some rows \<Rightarrow>
          if blocked then (Some (DbError ''database is locked''), t)
          else (None, t\<lparr>cur := (cur t)\<lparr>ledger := Some (filter (\<lambda>x. x \<noteq> v) rows)\<rparr>\<rparr>))"

definition Rollback :: "'o tx \<Rightarrow> 'o world" where
  "Rollback t = start t"

definition Commit :: "'o tx \<Rightarrow> error + 'o world" where
  "Commit t = Inr (cur t)"

section \<open>Mutual exclusion (lock.go)\<close>

text \<open>
  A locker is its backend and its \<^verbatim>\<open>locked\<close> flag. \<open>Lock\<close> takes the number of seconds
  left until the deadline of its context. What the lock primitives of the engines
  answer is determined by \<open>rival\<close>; a wait of \<open>t\<close> seconds brings the rival's release
  \<open>t\<close> seconds nearer.
\<close>

datatype locker_kind = PostgresLocker | MySQLLocker | SQLiteLocker

record locker =
  kind :: locker_kind
  locked :: bool

definition NewLocker :: "'o world \<Rightarrow> error + locker" where
  "NewLocker w =
     (if driver w = ''postgres'' then Inr \<lparr>kind = PostgresLocker, locked = False\<rparr>
      else if driver w = ''mysql'' then Inr \<lparr>kind = MySQLLocker, locked = False\<rparr>
      else if driver w = ''sqlite3'' then Inr \<lparr>kind = SQLiteLocker, locked = False\<rparr>
      else Inl (UnsupportedDriver (driver w)))"

definition wait :: "nat \<Rightarrow> 'o world \<Rightarrow> 'o world" where
  "wait t w = w\<lparr>rival := rival w - t\<rparr>"

text \<open>
  \<^verbatim>\<open>PostgresLocker.Lock\<close>: a dedicated connection, then one call of
  \<^verbatim>\<open>pg_try_advisory_lock\<close>, which answers at once whether the lock was free.
\<close>

definition PostgresLocker_Lock :: "nat \<Rightarrow> locker \<Rightarrow> 'o world \<Rightarrow> error option \<times> locker \<times> 'o world" where
  "PostgresLocker_Lock ctx l w =
     (if locked l then (Some (New ''ya esta bloqueado''), l, w)
      else if ctx = 0 then (Some (Wrapf ''error obteniendo conexion: %w'' [] CtxDone), l, w)
      else
        let acquired = (rival w = 0)
        in if \<not> acquired
           then (Some (New ''no se pudo adquirir el lock, otra migracion esta en progreso''), l, w)
           else (None, l\<lparr>locked := True\<rparr>, w))"

text \<open>
  \<^verbatim>\<open>MySQLLocker.Lock\<close>: \<^verbatim>\<open>GET_LOCK(name, 10)\<close> waits up to ten seconds for the lock;
  the query is cut short when the context ends first.
\<close>

definition MySQLLocker_Lock :: "nat \<Rightarrow> locker \<Rightarrow> 'o world \<Rightarrow> error option \<times> locker \<times> 'o world" where
  "MySQLLocker_Lock ctx l w =
     (if locked l then (Some (New ''ya esta bloqueado''), l, w)
      else if ctx = 0 then (Some (Wrapf ''error obteniendo conexion: %w'' [] CtxDone), l, w)
      else if rival w \<le> 10 \<and> rival w < ctx then (None, l\<lparr>locked := True\<rparr>, wait (rival w) w)
      else if ctx \<le> 10 then (Some (Wrapf ''error adquiriendo lock: %w'' [] CtxDone), l, wait ctx w)
      else (Some (New ''no se pudo adquirir el lock, otra migracion esta en progreso''), l,
            wait 10 w))"

text \<open>
  A statement of the SQLite locker that needs the write lock of the database, under a
  context with \<open>ctx\<close> seconds left: while a rival holds the lock it waits, until the
  rival's release, the busy timeout of the driver or the end of the context, whichever
  comes first.
\<close>

definition locker_write :: "nat \<Rightarrow> 'o world \<Rightarrow> error option \<times> 'o world" where
  "locker_write ctx w =
     (if rival w \<le> busy_timeout \<and> rival w < ctx then (None, wait (rival w) w)
      else if ctx \<le> busy_timeout then (Some CtxDone, wait ctx w)
      else (Some (DbError ''database is locked''), wait busy_timeout w))"

text \<open>
  \<^verbatim>\<open>SQLiteLocker.Lock\<close>: creates the lock table when it does not exist, opens the
  locking transaction and inserts the sentinel row with \<^verbatim>\<open>INSERT OR IGNORE\<close>. The
  insertion is a write: a rival that holds the lock holds the write lock of the
  database in its own open transaction, and the statement waits for it as above. When
  the statement returns, the transaction of this locker holds the write lock, whether
  it has inserted the row (\<open>rows = 1\<close>) or has found the row of the rival still there
  (\<open>rows = 0\<close>); in the second case the \<^verbatim>\<open>UPDATE\<close> runs in that same transaction and
  is answered at once, before the ten seconds and the end of the context. The
  transaction stays open until \<^verbatim>\<open>Unlock\<close>.
\<close>

definition SQLiteLocker_Lock :: "nat \<Rightarrow> locker \<Rightarrow> 'o world \<Rightarrow> error option \<times> locker \<times> 'o world" where
  "SQLiteLocker_Lock ctx l w =
     (if locked l then (Some (New ''ya esta bloqueado''), l, w)
      else if ctx = 0 then (Some (Wrapf ''error creando tabla de lock: %w'' [] CtxDone), l, w)
      else
        case (if lock_table w then (None, w) else locker_write ctx w) of
          (Some err, w1) \<Rightarrow> (Some (Wrapf ''error creando tabla de lock: %w'' [] err), l, w1)
        | (None, w1) \<Rightarrow>
            (case locker_write ctx (w1\<lparr>lock_table := True\<rparr>) of
               (Some err, w2) \<Rightarrow> (Some (Wrapf ''error adquiriendo lock: %w'' [] err), l, w2)
             | (None, w2) \<Rightarrow> (None, l\<lparr>locked := True\<rparr>, w2)))"

definition Lock :: "nat \<Rightarrow> locker \<Rightarrow> 'o world \<Rightarrow> error option \<times> locker \<times> 'o world" where
  "Lock ctx l w =
     (case kind l of
        PostgresLocker \<Rightarrow> PostgresLocker_Lock ctx l w
      | MySQLLocker \<Rightarrow> MySQLLocker_Lock ctx l w
      | SQLiteLocker \<Rightarrow> SQLiteLocker_Lock ctx l w)"

text \<open>
  \<^verbatim>\<open>Unlock\<close> of the three lockers: nothing when the lock is not held; otherwise the
  lock is given back (for SQLite the locking transaction is committed and the sentinel
  row deleted, the lock table stays) and the flag cleared.
\<close>

definition Unlock :: "locker \<Rightarrow> 'o world \<Rightarrow> error option \<times> locker \<times> 'o world" where
  "Unlock l w = (if \<not> locked l then (None, l, w) else (None, l\<lparr>locked := False\<rparr>, w))"

text \<open>
  Between \<^verbatim>\<open>Lock\<close> and \<^verbatim>\<open>Unlock\<close> the SQLite locker keeps its transaction open on a
  connection of the pool, with the write lock of the database; the Postgres and MySQL
  lockers hold a named lock that no statement of the runner asks for.
\<close>

definition holds_writer :: "locker \<Rightarrow> bool" where
  "holds_writer l = (kind l = SQLiteLocker \<and> locked l)"

section \<open>Migration runner (migrate.go)\<close>

text \<open>
  Each operation returns its error (\<open>None\<close> for \<^verbatim>\<open>nil\<close>) and the state it leaves.
  What the operations print is not modelled. The deferred \<^verbatim>\<open>locker.Unlock()\<close> runs on
  every return that follows a successful \<^verbatim>\<open>Lock\<close>; its result is dropped, as in the
  source.
\<close>

subsection \<open>Up\<close>

text \<open>The transaction that applies one pending migration, as the loop of \<^verbatim>\<open>Up\<close> writes it.\<close>

definition Up_tx :: "'o engine \<Rightarrow> bool \<Rightarrow> Migration \<Rightarrow> 'o world \<Rightarrow> error option \<times> 'o world" where
  "Up_tx eng blocked m w =
     (case Beginx w of
        Inl err \<Rightarrow> (Some (Wrapf ''error iniciando transaccion: %w'' [] err), w)
      | Inr t \<Rightarrow>
          (case tx_Exec eng blocked (UpSQL m) t of
             (Some err, t1) \<Rightarrow> (Some (Wrapf ''up %d failed: %w'' [Version m] err), Rollback t1)
           | (None, t1) \<Rightarrow>
               (case tx_Insert blocked (Version m) t1 of
                  (Some err, t2) \<Rightarrow>
                    (Some (Wrapf ''error registrando migracion %d: %w'' [Version m] err),
                     Rollback t2)
                | (None, t2) \<Rightarrow>
                    (case Commit t2 of
                       Inl err \<Rightarrow> (Some err, Rollback t2)
                     | Inr w1 \<Rightarrow> (None, w1)))))"

text \<open>
  The loop over the loaded migrations; \<open>done\<close> holds the applied versions. An error of
  the transaction ends \<^verbatim>\<open>Up\<close>.
\<close>

fun up_loop :: "'o engine \<Rightarrow> bool \<Rightarrow> bool \<Rightarrow> int list \<Rightarrow> Migration list \<Rightarrow> 'o world \<Rightarrow> error option \<times> 'o world" where
  "up_loop eng blocked dryRun done [] w = (None, w)"
| "up_loop eng blocked dryRun done (m # ms) w =
     (if Version m \<in> set done then up_loop eng blocked dryRun done ms w
      else if dryRun then up_loop eng blocked dryRun done ms w
      else
        case Up_tx eng blocked m w of
          (Some err, w1) \<Rightarrow> (Some err, w1)
        | (None, w1) \<Rightarrow> up_loop eng blocked dryRun done ms w1)"

text \<open>The part of \<^verbatim>\<open>Up\<close> that follows the acquisition of the lock.\<close>

definition Up_body :: "'o engine \<Rightarrow> directory \<Rightarrow> bool \<Rightarrow> bool \<Rightarrow> 'o world \<Rightarrow> error option \<times> 'o world" where
  "Up_body eng dir dryRun blocked w =
     (case ensure blocked w of
        Inl err \<Rightarrow> (Some err, w)
      | Inr w1 \<Rightarrow>
          (case Load dir of
             Inl err \<Rightarrow> (Some err, w1)
           | Inr migrations \<Rightarrow>
               (case applied w1 of
                  Inl err \<Rightarrow> (Some err, w1)
                | Inr appliedVersions \<Rightarrow>
                    up_loop eng blocked dryRun appliedVersions migrations w1)))"

text \<open>
  The lock protocol shared by the three operations: no lock in dry-run; otherwise a new
  locker, \<^verbatim>\<open>Lock\<close> under a context of thirty seconds, the body, and the deferred
  \<^verbatim>\<open>Unlock\<close>. The body runs while the locker is locked: its statements go through
  the pool, on other connections than the one of an SQLite locker's transaction, and
  meet the write lock that transaction holds.
\<close>

definition with_lock :: "bool \<Rightarrow> (bool \<Rightarrow> 'o world \<Rightarrow> error option \<times> 'o world) \<Rightarrow> 'o world \<Rightarrow> error option \<times> 'o world" where
  "with_lock dryRun body w =
     (if \<not> dryRun then
        (case NewLocker w of
           Inl err \<Rightarrow> (Some (Wrapf ''error creando locker: %w'' [] err), w)
         | Inr locker \<Rightarrow>
             (case Lock 30 locker w of
                (Some err, locker1, w1) \<Rightarrow> (Some (Wrapf ''no se pudo adquirir lock: %w'' [] err), w1)
              | (None, locker1, w1) \<Rightarrow>
                  (case body (holds_writer locker1) w1 of
                     (r, w2) \<Rightarrow> (case Unlock locker1 w2 of (u, locker2, w3) \<Rightarrow> (r, w3)))))
      else body False w)"

definition Up :: "'o engine \<Rightarrow> directory \<Rightarrow> bool \<Rightarrow> 'o world \<Rightarrow> error option \<times> 'o world" where
  "Up eng dir dryRun w = with_lock dryRun (Up_body eng dir dryRun) w"

subsection \<open>Down\<close>

text \<open>The transaction that reverts one migration, as \<^verbatim>\<open>Down\<close> writes it.\<close>

definition Down_tx :: "'o engine \<Rightarrow> bool \<Rightarrow> Migration \<Rightarrow> 'o world \<Rightarrow> error option \<times> 'o world" where
  "Down_tx eng blocked target w =
     (case Beginx w of
        Inl err \<Rightarrow> (Some (Wrapf ''error iniciando transaccion: %w'' [] err), w)
      | Inr t \<Rightarrow>
          (case tx_Exec eng blocked (DownSQL target) t of
             (Some err, t1) \<Rightarrow>
               (Some (Wrapf ''error ejecutando down migration: %w'' [] err), Rollback t1)
           | (None, t1) \<Rightarrow>
               (case tx_Delete blocked (Version target) t1 of
                  (Some err, t2) \<Rightarrow>
                    (Some (Wrapf ''error eliminando registro de migracion: %w'' [] err),
                     Rollback t2)
                | (None, t2) \<Rightarrow>
                    (case Commit t2 of
                       Inl err \<Rightarrow> (Some err, Rollback t2)
                     | Inr w1 \<Rightarrow> (None, w1)))))"

definition Down_body :: "'o engine \<Rightarrow> directory \<Rightarrow> bool \<Rightarrow> bool \<Rightarrow> 'o world \<Rightarrow> error option \<times> 'o world" where
  "Down_body eng dir dryRun blocked w =
     (case Load dir of
        Inl err \<Rightarrow> (Some (New ''no migration to rollback''), w)
      | Inr migrations \<Rightarrow>
          (case last_version w of
             Inl err \<Rightarrow> (Some (New ''no migration to rollback''), w)
           | Inr v \<Rightarrow>
               (case find (\<lambda>m. Version m = v) migrations of
                  None \<Rightarrow> (Some (New ''no down migration found''), w)
                | Some target \<Rightarrow>
                    if DownSQL target = [] then (Some (New ''no down migration found''), w)
                    else if dryRun then (None, w)
                    else Down_tx eng blocked target w)))"

definition Down :: "'o engine \<Rightarrow> directory \<Rightarrow> bool \<Rightarrow> 'o world \<Rightarrow> error option \<times> 'o world" where
  "Down eng dir dryRun w = with_lock dryRun (Down_body eng dir dryRun) w"

subsection \<open>DownN\<close>

text \<open>The transaction that reverts one migration, as the loop of \<^verbatim>\<open>DownN\<close> writes it.\<close>

definition DownN_tx :: "'o engine \<Rightarrow> bool \<Rightarrow> Migration \<Rightarrow> 'o world \<Rightarrow> error option \<times> 'o world" where
  "DownN_tx eng blocked target w =
     (case Beginx w of
        Inl err \<Rightarrow> (Some (Wrapf ''error iniciando transaccion: %w'' [] err), w)
      | Inr t \<Rightarrow>
          (case tx_Exec eng blocked (DownSQL target) t of
             (Some err, t1) \<Rightarrow>
               (Some (Wrapf ''error ejecutando down migration %d: %w'' [Version target] err),
                Rollback t1)
           | (None, t1) \<Rightarrow>
               (case tx_Delete blocked (Version target) t1 of
                  (Some err, t2) \<Rightarrow>
                    (Some (Wrapf ''error eliminando registro de migracion %d: %w''
                             [Version target] err),
                     Rollback t2)
                | (None, t2) \<Rightarrow>
                    (case Commit t2 of
                       Inl err \<Rightarrow> (Some (Wrapf ''error en commit: %w'' [] err), Rollback t2)
                     | Inr w1 \<Rightarrow> (None, w1)))))"

text \<open>
  The loop over the versions to revert, most recent first. A missing artifact, an empty
  revert script or an error of the transaction ends \<^verbatim>\<open>DownN\<close>.
\<close>

fun downN_loop :: "'o engine \<Rightarrow> bool \<Rightarrow> (int \<rightharpoonup> Migration) \<Rightarrow> bool \<Rightarrow> int list \<Rightarrow> 'o world \<Rightarrow> error option \<times> 'o world" where
  "downN_loop eng blocked migrationMap dryRun [] w = (None, w)"
| "downN_loop eng blocked migrationMap dryRun (version # vs) w =
     (case migrationMap version of
        None \<Rightarrow> (Some (Newf ''archivo de migracion %d no encontrado'' [version]), w)
      | Some target \<Rightarrow>
          if DownSQL target = []
          then (Some (Newf ''migracion %d no tiene script down'' [version]), w)
          else if dryRun then downN_loop eng blocked migrationMap dryRun vs w
          else
            case DownN_tx eng blocked target w of
              (Some err, w1) \<Rightarrow> (Some err, w1)
            | (None, w1) \<Rightarrow> downN_loop eng blocked migrationMap dryRun vs w1)"

definition DownN_body :: "'o engine \<Rightarrow> directory \<Rightarrow> int \<Rightarrow> bool \<Rightarrow> bool \<Rightarrow> 'o world \<Rightarrow> error option \<times> 'o world" where
  "DownN_body eng dir steps dryRun blocked w =
     (case Load dir of
        Inl err \<Rightarrow> (Some (Wrapf ''error cargando migraciones: %w'' [] err), w)
      | Inr migrations \<Rightarrow>
          (case applied w of
             Inl err \<Rightarrow> (Some (Wrapf ''error obteniendo migraciones aplicadas: %w'' [] err), w)
           | Inr appliedVersions \<Rightarrow>
               if length appliedVersions = 0
               then (Some (New ''no hay migraciones para revertir''), w)
               else if steps > int (length appliedVersions)
               then (Some (Newf ''solo hay %d migraci(ones) aplicada(s), no se pueden revertir %d''
                             [int (length appliedVersions), steps]), w)
               else
                 let migrationMap = fold (\<lambda>m mm. mm(Version m \<mapsto> m)) migrations Map.empty;
                     toRevert = drop (length appliedVersions - nat steps) appliedVersions
                 in downN_loop eng blocked migrationMap dryRun (rev toRevert) w))"

definition DownN :: "'o engine \<Rightarrow> directory \<Rightarrow> int \<Rightarrow> bool \<Rightarrow> 'o world \<Rightarrow> error option \<times> 'o world" where
  "DownN eng dir steps dryRun w =
     (if steps < 1 then (Some (New ''steps debe ser mayor a 0''), w)
      else with_lock dryRun (DownN_body eng dir steps dryRun) w)"

section \<open>Notions used in the statements\<close>

text \<open>
  The version \<^verbatim>\<open>Load\<close> gives a file name; the entries \<^verbatim>\<open>Load\<close> reads (SQL extension and
  readable); the texts of the files that set the apply half, and the revert half, of a
  version, in directory order.
\<close>

definition version_of :: "string \<Rightarrow> int" where
  "version_of name = fst (Atoi (hd (Split name CHR ''_'')))"

definition loaded :: "dirent \<Rightarrow> bool" where
  "loaded f = (HasSuffix (fst f) ''.sql'' \<and> snd f \<noteq> None)"

definition up_texts :: "int \<Rightarrow> dirent list \<Rightarrow> string list" where
  "up_texts v files =
     map (\<lambda>f. the (snd f))
       (filter (\<lambda>f. loaded f \<and> version_of (fst f) = v \<and> Contains (fst f) ''.up.'') files)"

definition down_texts :: "int \<Rightarrow> dirent list \<Rightarrow> string list" where
  "down_texts v files =
     map (\<lambda>f. the (snd f))
       (filter (\<lambda>f. loaded f \<and> version_of (fst f) = v \<and> \<not> Contains (fst f) ''.up.''
                    \<and> Contains (fst f) ''.down.'') files)"

definition last_or_empty :: "string list \<Rightarrow> string" where
  "last_or_empty xs = (if xs = [] then [] else last xs)"

definition up_from :: "(int \<times> Migration) list \<Rightarrow> int \<Rightarrow> string" where
  "up_from m v = (case map_of m v of Some e \<Rightarrow> UpSQL e | None \<Rightarrow> [])"

definition down_from :: "(int \<times> Migration) list \<Rightarrow> int \<Rightarrow> string" where
  "down_from m v = (case map_of m v of Some e \<Rightarrow> DownSQL e | None \<Rightarrow> [])"

text \<open>The invariant of the loader's map: one pair per key, each entry under its version.\<close>

definition keyed :: "(int \<times> Migration) list \<Rightarrow> bool" where
  "keyed m = (distinct (map fst m) \<and> (\<forall>k e. map_of m k = Some e \<longrightarrow> Version e = k))"

text \<open>
  The migrations \<^verbatim>\<open>Up\<close> finds pending, and the effect of running scripts one after the
  other, each to its end (\<open>None\<close> when one of them fails).
\<close>

definition pending :: "int list \<Rightarrow> Migration list \<Rightarrow> Migration list" where
  "pending rows ms = filter (\<lambda>m. Version m \<notin> set rows) ms"

fun run_all :: "'o engine \<Rightarrow> string list \<Rightarrow> 'o \<Rightarrow> 'o option" where
  "run_all eng [] ob = Some ob"
| "run_all eng (s # ss) ob =
     (case eng s ob of (ob1, None) \<Rightarrow> run_all eng ss ob1 | (ob1, Some msg) \<Rightarrow> None)"

text \<open>The rows of the control table, none when the table does not exist.\<close>

definition rows_of :: "'o world \<Rightarrow> int list" where
  "rows_of w = (case ledger w of None \<Rightarrow> [] | Some rows \<Rightarrow> rows)"

text \<open>Two states with the same application objects, ledger and transaction count.\<close>

definition same_db :: "'o world \<Rightarrow> 'o world \<Rightarrow> bool" where
  "same_db w w1 = (objects w1 = objects w \<and> ledger w1 = ledger w \<and> txs w1 = txs w)"

section \<open>An engine to run the model on\<close>

text \<open>
  A small engine for concrete runs: the objects are a list of table names, a script is
  a sequence of statements separated by \<open>;\<close>, \<open>+t\<close> creates table \<open>t\<close>, \<open>-t\<close> drops it,
  and any other statement is an error that stops the script.
\<close>

fun toy_stmts :: "string list \<Rightarrow> string list \<Rightarrow> string list \<times> string option" where
  "toy_stmts [] obs = (obs, None)"
| "toy_stmts (s # ss) obs =
     (if s \<noteq> [] \<and> hd s = CHR ''+'' then toy_stmts ss (obs @ [tl s])
      else if s \<noteq> [] \<and> hd s = CHR ''-'' then toy_stmts ss (removeAll (tl s) obs)
      else (obs, Some ''syntax error''))"

definition toy_engine :: "string list engine" where
  "toy_engine script obs = toy_stmts (Split script CHR '';'') obs"

definition toy_world :: "string \<Rightarrow> nat \<Rightarrow> int list option \<Rightarrow> string list world" where
  "toy_world drv rv rows =
     \<lparr>objects = [], ledger = rows, lock_table = False, driver = drv, rival = rv, txs = 0\<rparr>"

definition dir123 :: directory where
  "dir123 = Inr [(''1_users.down.sql'', Some ''-users''), (''1_users.up.sql'', Some ''+users''),
                 (''2_posts.down.sql'', Some ''-posts''), (''2_posts.up.sql'', Some ''+posts''),
                 (''3_tags.down.sql'', Some ''-tags''), (''3_tags.up.sql'', Some ''+tags'')]"

text \<open>
  Directories whose migration 1 has an apply script, and a revert script, that fails
  after it has created, or dropped, tables; and one in which migration 1 has no revert
  script.
\<close>

definition dir_bad_up :: directory where
  "dir_bad_up = Inr [(''1_test.down.sql'', Some ''-test1;-test2''),
                     (''1_test.up.sql'', Some ''+test1;+test2;INVALID SQL HERE'')]"

definition dir_bad_down :: directory where
  "dir_bad_down = Inr [(''1_test.down.sql'', Some ''-test1;INVALID SQL HERE''),
                       (''1_test.up.sql'', Some ''+test1'')]"

definition dir_no_down :: directory where
  "dir_no_down = Inr [(''1_users.up.sql'', Some ''+users''),
                      (''2_posts.down.sql'', Some ''-posts''), (''2_posts.up.sql'', Some ''+posts'')]"

text \<open>
  A directory whose migration 1 has for revert script the comment of a new migration's
  template, which leaves the objects as they are (the example engine reads it as the
  drop of a table that does not exist).
\<close>

definition dir_comment_down :: directory where
  "dir_comment_down = Inr [(''1_users.down.sql'', Some ''-- DOWN''),
                           (''1_users.up.sql'', Some ''+users'')]"

definition dir_bad_second :: directory where
  "dir_bad_second = Inr [(''1_users.up.sql'', Some ''+users''),
                         (''2_posts.up.sql'', Some ''+posts;INVALID SQL HERE''),
                         (''3_tags.up.sql'', Some ''+tags'')]"

section \<open>Properties of the loader\<close>

lemma Version_set_script [simp]: "Version (set_script name sql e) = Version e"
  by (simp add: set_script_def)

lemma Version_get_entry: "keyed m \<Longrightarrow> Version (get_entry m v parts) = v"
  by (simp add: get_entry_def keyed_def split: option.split)

lemma load_file_eq:
  "load_file f m =
     (if loaded f
      then AList.update (version_of (fst f))
             (set_script (fst f) (the (snd f))
                (get_entry m (version_of (fst f)) (Split (fst f) CHR ''_''))) m
      else m)"
  by (cases f) (simp add: load_file_def loaded_def version_of_def Let_def split: option.split)

lemma keyed_update:
  "keyed m \<Longrightarrow> Version e = k \<Longrightarrow> keyed (AList.update k e m)"
  by (simp add: keyed_def distinct_update update_conv')

lemma load_file_keyed: "keyed m \<Longrightarrow> keyed (load_file f m)"
  by (simp add: load_file_eq keyed_update Version_get_entry)

lemma load_files_keyed: "keyed m \<Longrightarrow> keyed (load_files files m)"
  by (induction files arbitrary: m) (simp_all add: load_file_keyed)

lemma load_file_dom:
  "fst ` set (load_file f m) = fst ` set m \<union> (if loaded f then {version_of (fst f)} else {})"
  using dom_update [of "version_of (fst f)" _ m]
  by (simp add: load_file_eq dom_map_of_conv_image_fst)

lemma load_files_dom:
  "fst ` set (load_files files m) =
     fst ` set m \<union> version_of ` fst ` {f \<in> set files. loaded f}"
  by (induction files arbitrary: m) (auto simp: load_file_dom)


lemma load_file_up:
  "up_from (load_file f m) v =
     (if loaded f \<and> version_of (fst f) = v \<and> Contains (fst f) ''.up.'' then the (snd f)
      else up_from m v)"
  by (simp add: load_file_eq up_from_def update_conv' set_script_def get_entry_def
      split: option.split)

lemma load_file_down:
  "down_from (load_file f m) v =
     (if loaded f \<and> version_of (fst f) = v \<and> \<not> Contains (fst f) ''.up.''
         \<and> Contains (fst f) ''.down.'' then the (snd f)
      else down_from m v)"
  by (simp add: load_file_eq down_from_def update_conv' set_script_def get_entry_def
      split: option.split)

lemma load_files_up:
  "up_from (load_files files m) v =
     (if up_texts v files = [] then up_from m v else last (up_texts v files))"
  by (induction files arbitrary: m) (simp_all add: load_file_up up_texts_def)

lemma load_files_down:
  "down_from (load_files files m) v =
     (if down_texts v files = [] then down_from m v else last (down_texts v files))"
  by (induction files arbitrary: m) (simp_all add: load_file_down down_texts_def)

lemma load_files_ignore:
  "load_files (filter (\<lambda>f. HasSuffix (fst f) ''.sql'') files) m = load_files files m"
  by (induction files arbitrary: m) (simp_all add: load_file_eq loaded_def)

lemma keyed_Nil: "keyed []"
  by (simp add: keyed_def)

lemma keyed_pair:
  assumes "keyed m" and "p \<in> set m"
  shows "map_of m (fst p) = Some (snd p)" and "Version (snd p) = fst p"
proof -
  have d: "distinct (map fst m)" using assms(1) by (simp add: keyed_def)
  have "(fst p, snd p) \<in> set m" using assms(2) by simp
  then show l: "map_of m (fst p) = Some (snd p)"
    by (simp only: map_of_eq_Some_iff [OF d])
  show "Version (snd p) = fst p"
    using assms(1) l unfolding keyed_def by blast
qed

lemma keyed_versions: "keyed m \<Longrightarrow> map Version (map snd m) = map fst m"
  by (simp add: keyed_pair(2))

lemma keyed_member:
  assumes "keyed m" and "e \<in> snd ` set m"
  shows "map_of m (Version e) = Some e"
proof -
  from assms(2) obtain p where p: "p \<in> set m" "e = snd p" by blast
  show ?thesis
    using keyed_pair [OF assms(1) p(1)] p(2) by simp
qed

lemma signed_result_syntax:
  "snd (signed_result neg r) = Some ErrSyntax \<Longrightarrow> fst (signed_result neg r) = 0"
  by (cases r) (simp add: signed_result_def split: if_splits)

lemma signed_result_range:
  "snd (signed_result neg r) = Some ErrRange \<Longrightarrow>
     fst (signed_result neg r) = 2 ^ 63 - 1 \<or> fst (signed_result neg r) = - (2 ^ 63)"
  by (cases r) (simp add: signed_result_def split: if_splits)

lemma Atoi_nonempty:
  "s \<noteq> [] \<Longrightarrow>
     Atoi s = signed_result (hd s = CHR ''-'')
                (ParseUint (if hd s = CHR ''+'' \<or> hd s = CHR ''-'' then tl s else s))"
  unfolding Atoi_def ParseInt_def by (simp only: if_False)

lemma Atoi_syntax:
  assumes "snd (Atoi s) = Some ErrSyntax"
  shows "fst (Atoi s) = 0"
proof (cases "s = []")
  case True
  then show ?thesis by (simp add: Atoi_def ParseInt_def)
next
  case False
  show ?thesis
    using assms unfolding Atoi_nonempty [OF False] by (rule signed_result_syntax)
qed

lemma Atoi_range:
  assumes "snd (Atoi s) = Some ErrRange"
  shows "fst (Atoi s) = 2 ^ 63 - 1 \<or> fst (Atoi s) = - (2 ^ 63)"
proof (cases "s = []")
  case True
  then show ?thesis using assms by (simp add: Atoi_def ParseInt_def)
next
  case False
  show ?thesis
    using assms unfolding Atoi_nonempty [OF False] by (rule signed_result_range)
qed

lemma Load_sorted:
  assumes "Load dir = Inr ms"
  shows "sorted_wrt (<) (map Version ms)"
proof -
  from assms obtain files where dir: "dir = Inr files" by (cases dir) (simp_all add: Load_def)
  let ?m = "load_files files []"
  have ms: "ms = sort_key Version (map snd ?m)" using assms by (simp add: dir Load_def)
  have k: "keyed ?m" by (simp add: load_files_keyed keyed_Nil)
  have vs: "map Version (map snd ?m) = map fst ?m" using k by (rule keyed_versions)
  have d: "distinct (map Version (map snd ?m))" unfolding vs using k by (simp add: keyed_def)
  have d1: "distinct (map snd ?m)" and d2: "inj_on Version (set (map snd ?m))"
    using d by (simp_all only: distinct_map)
  have o1: "distinct ms" unfolding ms using d1 by (simp only: distinct_sort)
  have o2: "inj_on Version (set ms)" unfolding ms using d2 by (simp only: set_sort)
  have "distinct (map Version ms)"
    using o1 o2 by (simp only: distinct_map)
  moreover have "sorted (map Version ms)" unfolding ms by (rule sorted_sort_key)
  ultimately show ?thesis
    by (simp only: strict_sorted_iff)
qed

lemma Load_versions:
  assumes "Load (Inr files) = Inr ms"
  shows "set (map Version ms) = version_of ` fst ` {f \<in> set files. loaded f}"
proof -
  let ?m = "load_files files []"
  have ms: "ms = sort_key Version (map snd ?m)" using assms by (simp add: Load_def)
  have k: "keyed ?m" by (simp add: load_files_keyed keyed_Nil)
  have vs: "map Version (map snd ?m) = map fst ?m" using k by (rule keyed_versions)
  have "set (map Version ms) = set (map Version (map snd ?m))"
    unfolding ms by (simp only: set_map set_sort)
  also have "\<dots> = fst ` set ?m" by (simp only: vs set_map)
  finally show ?thesis
    by (simp add: load_files_dom)
qed

lemma Load_scripts:
  assumes "Load (Inr files) = Inr ms" and "e \<in> set ms"
  shows "UpSQL e = last_or_empty (up_texts (Version e) files)
         \<and> DownSQL e = last_or_empty (down_texts (Version e) files)"
proof -
  let ?m = "load_files files []"
  have ms: "ms = sort_key Version (map snd ?m)" using assms(1) by (simp add: Load_def)
  have k: "keyed ?m" by (simp add: load_files_keyed keyed_Nil)
  from assms(2) have "e \<in> snd ` set ?m" unfolding ms by (simp only: set_sort set_map)
  with k have l: "map_of ?m (Version e) = Some e" by (rule keyed_member)
  have u: "up_from ?m (Version e) = UpSQL e" and dn: "down_from ?m (Version e) = DownSQL e"
    by (simp_all add: up_from_def down_from_def l)
  have e0: "up_from [] (Version e) = []" "down_from [] (Version e) = []"
    by (simp_all add: up_from_def down_from_def)
  show ?thesis
    unfolding u [symmetric] dn [symmetric] load_files_up load_files_down e0 last_or_empty_def
    by (rule conjI; rule refl)
qed

lemma Load_ignore:
  "Load (Inr (filter (\<lambda>f. HasSuffix (fst f) ''.sql'') files)) = Load (Inr files)"
  by (simp add: Load_def load_files_ignore)

text \<open>
  What \<^verbatim>\<open>Load\<close> returns for a readable directory: a sequence of migrations in strictly
  ascending order of version, one per version of the entries it reads; the apply half
  of each is the text of the last file of its version whose name contains \<^verbatim>\<open>.up.\<close>,
  the revert half that of the last file whose name contains \<^verbatim>\<open>.down.\<close> and not
  \<^verbatim>\<open>.up.\<close>, each empty when there is no such file; entries without the SQL extension
  change nothing.
\<close>

lemma Load_postcondition:
  "\<exists>out. Load (Inr files) = Inr out
     \<and> sorted_wrt (<) (map Version out)
     \<and> set (map Version out) = version_of ` fst ` {f \<in> set files. loaded f}
     \<and> (\<forall>m \<in> set out. UpSQL m = last_or_empty (up_texts (Version m) files)
                      \<and> DownSQL m = last_or_empty (down_texts (Version m) files))
     \<and> Load (Inr (filter (\<lambda>f. HasSuffix (fst f) ''.sql'') files)) = Inr out"
proof -
  obtain out where ld: "Load (Inr files) = Inr out" by (simp add: Load_def)
  have s: "sorted_wrt (<) (map Version out)" using ld by (rule Load_sorted)
  have dom: "set (map Version out) = version_of ` fst ` {f \<in> set files. loaded f}"
    using ld by (rule Load_versions)
  have scripts: "\<forall>m \<in> set out. UpSQL m = last_or_empty (up_texts (Version m) files)
                      \<and> DownSQL m = last_or_empty (down_texts (Version m) files)"
    using Load_scripts [OF ld] by blast
  have ign: "Load (Inr (filter (\<lambda>f. HasSuffix (fst f) ''.sql'') files)) = Inr out"
    by (simp only: Load_ignore ld)
  show ?thesis
    by (rule exI [of _ out]) (intro conjI ld s dom scripts ign)
qed

text \<open>
  C9. A file whose version token fails to parse as an integer should contribute to
  version 0. \<^verbatim>\<open>Load\<close> drops the error of \<^verbatim>\<open>strconv.Atoi\<close> and keeps its value, which
  is 0 only for a syntax error: a token of digits too large for a 64-bit integer fails
  to parse and gives version \<open>2 ^ 63 - 1\<close>, also when a letter follows the digits, as
  \<^verbatim>\<open>Atoi\<close> meets the overflow before the letter; with a minus sign it gives
  \<open>- (2 ^ 63)\<close>. A token that is no number gives version 0.
\<close>

theorem C9_out_of_range_token_is_not_version_0:
  "Atoi ''99999999999999999999'' = (9223372036854775807, Some ErrRange)
   \<and> Load (Inr [(''99999999999999999999_x.up.sql'', Some ''+x'')]) =
       Inr [\<lparr>Version = 9223372036854775807, Name = ''x'', UpSQL = ''+x'', DownSQL = []\<rparr>]
   \<and> Atoi ''99999999999999999999a'' = (9223372036854775807, Some ErrRange)
   \<and> Load (Inr [(''99999999999999999999a_x.up.sql'', Some ''+x'')]) =
       Inr [\<lparr>Version = 9223372036854775807, Name = ''x'', UpSQL = ''+x'', DownSQL = []\<rparr>]
   \<and> Atoi ''-99999999999999999999'' = (- 9223372036854775808, Some ErrRange)
   \<and> Load (Inr [(''-99999999999999999999_x.up.sql'', Some ''+x'')]) =
       Inr [\<lparr>Version = - 9223372036854775808, Name = ''x'', UpSQL = ''+x'', DownSQL = []\<rparr>]
   \<and> Atoi ''no'' = (0, Some ErrSyntax)
   \<and> Load (Inr [(''no_version.up.sql'', Some ''+t'')]) =
       Inr [\<lparr>Version = 0, Name = ''version'', UpSQL = ''+t'', DownSQL = []\<rparr>]"
  by code_simp

section \<open>Dry-run\<close>

lemma up_loop_dry: "up_loop eng b True dn ms w = (None, w)"
  by (induction ms) simp_all

lemma downN_loop_dry: "snd (downN_loop eng b mm True vs w) = w"
  by (induction vs) (simp_all split: option.split)

text \<open>
  What the three operations leave in dry-run, for every directory and every state: \<^verbatim>\<open>Down\<close>
  and \<^verbatim>\<open>DownN\<close> return the state they were given, whatever \<open>rival\<close> is; \<^verbatim>\<open>Up\<close> returns
  it with the control table created when it was absent.
\<close>

lemma Up_dry_run:
  "snd (Up eng dir True w) = (case ledger w of None \<Rightarrow> w\<lparr>ledger := Some []\<rparr> | Some rows \<Rightarrow> w)"
  by (simp add: Up_def with_lock_def Up_body_def ensure_def applied_def up_loop_dry
      split: sum.split option.split)

lemma Down_dry_run: "snd (Down eng dir True w) = w"
  by (simp add: Down_def with_lock_def Down_body_def split: sum.split option.split)

lemma DownN_dry_run: "snd (DownN eng dir steps True w) = w"
  by (simp add: DownN_def with_lock_def DownN_body_def downN_loop_dry Let_def split: sum.split)

text \<open>
  C1. Dry-run \<^verbatim>\<open>Up\<close>, \<^verbatim>\<open>Down\<close> and \<^verbatim>\<open>DownN\<close> should create no schema object, the control
  table included. \<^verbatim>\<open>Up\<close> calls \<^verbatim>\<open>ensure\<close> before it looks at \<^verbatim>\<open>dryRun\<close> again: on a
  database without the control table (here with a rival holding the lock), a dry-run
  \<^verbatim>\<open>Up\<close> returns \<^verbatim>\<open>nil\<close> and leaves the table created.
\<close>

theorem C1_dry_run_Up_creates_control_table:
  "Up toy_engine dir123 True (toy_world ''postgres'' 5 None) =
     (None, \<lparr>objects = [], ledger = Some [], lock_table = False, driver = ''postgres'',
             rival = 5, txs = 0\<rparr>)"
  by code_simp

section \<open>Lock acquisition\<close>

text \<open>
  C7. The Postgres locker should wait for the lock until the deadline. It probes once:
  with a rival that gives the lock back after one second and thirty seconds left on
  the context, \<^verbatim>\<open>Lock\<close> fails at once and changes nothing, where the MySQL and SQLite
  lockers acquire the lock; \<^verbatim>\<open>Up\<close> then fails without applying anything.
\<close>

theorem C7_postgres_lock_single_probe:
  "PostgresLocker_Lock 30 \<lparr>kind = PostgresLocker, locked = False\<rparr> (toy_world ''postgres'' 1 (Some [])) =
     (Some (New ''no se pudo adquirir el lock, otra migracion esta en progreso''),
      \<lparr>kind = PostgresLocker, locked = False\<rparr>, toy_world ''postgres'' 1 (Some []))
   \<and> fst (MySQLLocker_Lock 30 \<lparr>kind = MySQLLocker, locked = False\<rparr> (toy_world ''mysql'' 1 (Some []))) = None
   \<and> fst (SQLiteLocker_Lock 30 \<lparr>kind = SQLiteLocker, locked = False\<rparr> (toy_world ''sqlite3'' 1 (Some []))) = None
   \<and> Up toy_engine dir123 False (toy_world ''postgres'' 1 (Some [])) =
       (Some (Wrapf ''no se pudo adquirir lock: %w'' []
                (New ''no se pudo adquirir el lock, otra migracion esta en progreso'')),
        toy_world ''postgres'' 1 (Some []))"
  by code_simp

section \<open>Unreadable directory\<close>

text \<open>
  C8. An unreadable directory should surface as the I/O error in every operation.
  \<^verbatim>\<open>Up\<close> returns the error of \<^verbatim>\<open>os.ReadDir\<close> itself and \<^verbatim>\<open>DownN\<close> wraps it, but \<^verbatim>\<open>Down\<close>
  replaces it by the error it gives for an empty ledger.
\<close>

theorem C8_Down_masks_unreadable_directory:
  "Down eng (Inl msg) True w = (Some (New ''no migration to rollback''), w)
   \<and> fst (Up eng (Inl msg) True w) = Some (ReadDirError msg)
   \<and> fst (DownN eng (Inl msg) 1 True w) =
       Some (Wrapf ''error cargando migraciones: %w'' [] (ReadDirError msg))"
  by (simp add: Down_def Up_def DownN_def with_lock_def Down_body_def Up_body_def DownN_body_def
      Load_def ensure_def split: option.split)

section \<open>Properties of the runner\<close>

subsection \<open>The transactions\<close>

lemma Up_tx_eq:
  "Up_tx eng b m w =
     (case eng (UpSQL m) (objects w) of
        (ob, r) \<Rightarrow>
          if b \<and> ob \<noteq> objects w
          then (Some (Wrapf ''up %d failed: %w'' [Version m] (DbError ''database is locked'')),
                w\<lparr>txs := Suc (txs w)\<rparr>)
          else
            (case r of
               Some msg \<Rightarrow>
                 (Some (Wrapf ''up %d failed: %w'' [Version m] (DbError msg)),
                  w\<lparr>txs := Suc (txs w)\<rparr>)
             | None \<Rightarrow>
                 (case ledger w of
                    None \<Rightarrow>
                      (Some (Wrapf ''error registrando migracion %d: %w'' [Version m]
                               (DbError ''no such table: schema_migrations'')),
                       w\<lparr>txs := Suc (txs w)\<rparr>)
                  | Some rows \<Rightarrow>
                      if b
                      then (Some (Wrapf ''error registrando migracion %d: %w'' [Version m]
                                    (DbError ''database is locked'')),
                            w\<lparr>txs := Suc (txs w)\<rparr>)
                      else if Version m \<in> set rows
                      then (Some (Wrapf ''error registrando migracion %d: %w'' [Version m]
                                    (DbError ''UNIQUE constraint failed: schema_migrations.version'')),
                            w\<lparr>txs := Suc (txs w)\<rparr>)
                      else (None, w\<lparr>objects := ob, ledger := Some (rows @ [Version m]),
                                     txs := Suc (txs w)\<rparr>))))"
  by (cases "eng (UpSQL m) (objects w)")
     (auto simp: Up_tx_def Beginx_def tx_Exec_def tx_Insert_def Commit_def Rollback_def Let_def
        split: option.split)

lemma Up_tx_ok:
  assumes "Up_tx eng b m w = (None, w1)"
  shows "\<exists>ob rows. eng (UpSQL m) (objects w) = (ob, None) \<and> ledger w = Some rows
           \<and> Version m \<notin> set rows
           \<and> w1 = w\<lparr>objects := ob, ledger := Some (rows @ [Version m]), txs := Suc (txs w)\<rparr>"
  using assms unfolding Up_tx_eq
  by (auto split: prod.splits option.splits if_splits)

lemma Up_tx_script_failed:
  assumes "Up_tx eng b m w = (Some (Wrapf ''up %d failed: %w'' [v] e), w1)"
  shows "v = Version m
         \<and> (\<exists>ob r. eng (UpSQL m) (objects w) = (ob, r)
               \<and> ((\<exists>msg. r = Some msg \<and> e = DbError msg)
                    \<or> (b \<and> ob \<noteq> objects w \<and> e = DbError ''database is locked'')))
         \<and> w1 = w\<lparr>txs := Suc (txs w)\<rparr>"
  using assms unfolding Up_tx_eq
  by (auto split: prod.splits option.splits if_splits)

lemma DownN_tx_eq:
  "DownN_tx eng b t w =
     (case eng (DownSQL t) (objects w) of
        (ob, r) \<Rightarrow>
          if b \<and> ob \<noteq> objects w
          then (Some (Wrapf ''error ejecutando down migration %d: %w'' [Version t]
                        (DbError ''database is locked'')),
                w\<lparr>txs := Suc (txs w)\<rparr>)
          else
            (case r of
               Some msg \<Rightarrow>
                 (Some (Wrapf ''error ejecutando down migration %d: %w'' [Version t] (DbError msg)),
                  w\<lparr>txs := Suc (txs w)\<rparr>)
             | None \<Rightarrow>
                 (case ledger w of
                    None \<Rightarrow>
                      (Some (Wrapf ''error eliminando registro de migracion %d: %w'' [Version t]
                               (DbError ''no such table: schema_migrations'')),
                       w\<lparr>txs := Suc (txs w)\<rparr>)
                  | Some rows \<Rightarrow>
                      if b
                      then (Some (Wrapf ''error eliminando registro de migracion %d: %w''
                                    [Version t] (DbError ''database is locked'')),
                            w\<lparr>txs := Suc (txs w)\<rparr>)
                      else (None, w\<lparr>objects := ob,
                                     ledger := Some (filter (\<lambda>x. x \<noteq> Version t) rows),
                                     txs := Suc (txs w)\<rparr>))))"
  by (cases "eng (DownSQL t) (objects w)")
     (auto simp: DownN_tx_def Beginx_def tx_Exec_def tx_Delete_def Commit_def Rollback_def Let_def
        split: option.split)

lemma Down_tx_eq:
  "Down_tx eng b t w =
     (case eng (DownSQL t) (objects w) of
        (ob, r) \<Rightarrow>
          if b \<and> ob \<noteq> objects w
          then (Some (Wrapf ''error ejecutando down migration: %w'' []
                        (DbError ''database is locked'')),
                w\<lparr>txs := Suc (txs w)\<rparr>)
          else
            (case r of
               Some msg \<Rightarrow>
                 (Some (Wrapf ''error ejecutando down migration: %w'' [] (DbError msg)),
                  w\<lparr>txs := Suc (txs w)\<rparr>)
             | None \<Rightarrow>
                 (case ledger w of
                    None \<Rightarrow>
                      (Some (Wrapf ''error eliminando registro de migracion: %w'' []
                               (DbError ''no such table: schema_migrations'')),
                       w\<lparr>txs := Suc (txs w)\<rparr>)
                  | Some rows \<Rightarrow>
                      if b
                      then (Some (Wrapf ''error eliminando registro de migracion: %w'' []
                                    (DbError ''database is locked'')),
                            w\<lparr>txs := Suc (txs w)\<rparr>)
                      else (None, w\<lparr>objects := ob,
                                     ledger := Some (filter (\<lambda>x. x \<noteq> Version t) rows),
                                     txs := Suc (txs w)\<rparr>))))"
  by (cases "eng (DownSQL t) (objects w)")
     (auto simp: Down_tx_def Beginx_def tx_Exec_def tx_Delete_def Commit_def Rollback_def Let_def
        split: option.split)

text \<open>Under the write lock of the locker no transaction of the runner commits.\<close>

lemma Up_tx_blocked: "fst (Up_tx eng True m w) \<noteq> None \<and> snd (Up_tx eng True m w) = w\<lparr>txs := Suc (txs w)\<rparr>"
  unfolding Up_tx_eq by (simp split: prod.split option.split)

lemma Down_tx_blocked:
  "fst (Down_tx eng True t w) \<noteq> None \<and> snd (Down_tx eng True t w) = w\<lparr>txs := Suc (txs w)\<rparr>"
  unfolding Down_tx_eq by (simp split: prod.split option.split)

lemma DownN_tx_blocked:
  "fst (DownN_tx eng True t w) \<noteq> None \<and> snd (DownN_tx eng True t w) = w\<lparr>txs := Suc (txs w)\<rparr>"
  unfolding DownN_tx_eq by (simp split: prod.split option.split)

subsection \<open>The loop of Up\<close>

lemma up_loop_skip:
  "Version ` set ms \<subseteq> set dn \<Longrightarrow> up_loop eng b d dn ms w = (None, w)"
  by (induction ms) simp_all

lemma up_loop_ok:
  assumes "up_loop eng b False dn ms w = (None, w')" and "ledger w = Some rows"
  shows "ledger w' = Some (rows @ map Version (pending dn ms))
         \<and> run_all eng (map UpSQL (pending dn ms)) (objects w) = Some (objects w')
         \<and> txs w' = txs w + length (pending dn ms)
         \<and> lock_table w' = lock_table w \<and> driver w' = driver w \<and> rival w' = rival w"
  using assms
proof (induction ms arbitrary: w rows)
  case Nil
  then show ?case by (simp add: pending_def)
next
  case (Cons m ms)
  show ?case
  proof (cases "Version m \<in> set dn")
    case True
    then show ?thesis using Cons by (simp add: pending_def)
  next
    case False
    from Cons.prems(1) False obtain w1 where
      t: "Up_tx eng b m w = (None, w1)" and l: "up_loop eng b False dn ms w1 = (None, w')"
      by (auto split: prod.splits option.splits)
    from Up_tx_ok [OF t] Cons.prems(2) obtain ob where
      e: "eng (UpSQL m) (objects w) = (ob, None)" and
      w1: "w1 = w\<lparr>objects := ob, ledger := Some (rows @ [Version m]), txs := Suc (txs w)\<rparr>"
      by auto
    have l1: "ledger w1 = Some (rows @ [Version m])" by (simp add: w1)
    from Cons.IH [OF l l1] show ?thesis
      using False e by (simp add: pending_def w1)
  qed
qed

lemma up_loop_failed:
  assumes "up_loop eng b False dn ms w = (Some (Wrapf ''up %d failed: %w'' [v] e), w')"
  shows "\<exists>pre m post w0 ob r.
           ms = pre @ m # post \<and> Version m = v \<and> v \<notin> set dn
           \<and> up_loop eng b False dn pre w = (None, w0)
           \<and> eng (UpSQL m) (objects w0) = (ob, r)
           \<and> ((\<exists>msg. r = Some msg \<and> e = DbError msg)
                \<or> (b \<and> ob \<noteq> objects w0 \<and> e = DbError ''database is locked''))
           \<and> w' = w0\<lparr>txs := Suc (txs w0)\<rparr>"
  using assms
proof (induction ms arbitrary: w)
  case Nil
  then show ?case by simp
next
  case (Cons m ms)
  show ?case
  proof (cases "Version m \<in> set dn")
    case True
    with Cons.prems have "up_loop eng b False dn ms w = (Some (Wrapf ''up %d failed: %w'' [v] e), w')"
      by simp
    from Cons.IH [OF this] obtain pre m' post w0 ob r where
      h: "ms = pre @ m' # post" "Version m' = v" "v \<notin> set dn"
         "up_loop eng b False dn pre w = (None, w0)"
         "eng (UpSQL m') (objects w0) = (ob, r)"
         "(\<exists>msg. r = Some msg \<and> e = DbError msg)
            \<or> (b \<and> ob \<noteq> objects w0 \<and> e = DbError ''database is locked'')"
         "w' = w0\<lparr>txs := Suc (txs w0)\<rparr>"
      by blast
    have "m # ms = (m # pre) @ m' # post" using h(1) by simp
    moreover have "up_loop eng b False dn (m # pre) w = (None, w0)" using True h(4) by simp
    ultimately show ?thesis using h(2,3,5,6,7) by blast
  next
    case False
    show ?thesis
    proof (cases "Up_tx eng b m w")
      case (Pair x w1)
      show ?thesis
      proof (cases x)
        case None
        with Pair False Cons.prems
        have "up_loop eng b False dn ms w1 = (Some (Wrapf ''up %d failed: %w'' [v] e), w')"
          by simp
        from Cons.IH [OF this] obtain pre m' post w0 ob r where
          h: "ms = pre @ m' # post" "Version m' = v" "v \<notin> set dn"
             "up_loop eng b False dn pre w1 = (None, w0)"
             "eng (UpSQL m') (objects w0) = (ob, r)"
             "(\<exists>msg. r = Some msg \<and> e = DbError msg)
                \<or> (b \<and> ob \<noteq> objects w0 \<and> e = DbError ''database is locked'')"
             "w' = w0\<lparr>txs := Suc (txs w0)\<rparr>"
          by blast
        have "m # ms = (m # pre) @ m' # post" using h(1) by simp
        moreover have "up_loop eng b False dn (m # pre) w = (None, w0)"
          using False Pair None h(4) by simp
        ultimately show ?thesis using h(2,3,5,6,7) by blast
      next
        case (Some err)
        with Pair False Cons.prems
        have t: "Up_tx eng b m w = (Some (Wrapf ''up %d failed: %w'' [v] e), w')"
          by simp
        from Up_tx_script_failed [OF t] obtain ob r where
          h: "v = Version m" "eng (UpSQL m) (objects w) = (ob, r)"
             "(\<exists>msg. r = Some msg \<and> e = DbError msg)
                \<or> (b \<and> ob \<noteq> objects w \<and> e = DbError ''database is locked'')"
             "w' = w\<lparr>txs := Suc (txs w)\<rparr>"
          by blast
        have "m # ms = [] @ m # ms" by simp
        moreover have "up_loop eng b False dn [] w = (None, w)" by simp
        ultimately show ?thesis using h False by blast
      qed
    qed
  qed
qed

subsection \<open>The lock protocol\<close>

lemma world_same_lock_table: "lock_table w = b \<Longrightarrow> w\<lparr>lock_table := b\<rparr> = w"
  by (cases w) simp

lemma world_same_ledger: "ledger w = b \<Longrightarrow> w\<lparr>ledger := b\<rparr> = w"
  by (cases w) simp

lemma wait_zero: "rival w = 0 \<Longrightarrow> wait t w = w"
  by (cases w) (simp add: wait_def)

lemma locker_write_frame:
  assumes "locker_write c w = (r, w1)"
  shows "same_db w w1 \<and> driver w1 = driver w \<and> lock_table w1 = lock_table w
         \<and> (r = None \<longrightarrow> rival w1 = 0 \<and> 0 < c)"
  using assms by (auto simp: locker_write_def wait_def same_db_def split: if_splits)

lemma locker_write_free: "rival w = 0 \<Longrightarrow> 0 < c \<Longrightarrow> locker_write c w = (None, w)"
  by (simp add: locker_write_def wait_zero)

lemma SQLiteLocker_Lock_frame:
  assumes "SQLiteLocker_Lock c l w = (r, l1, w1)"
  shows "same_db w w1 \<and> driver w1 = driver w"
proof (cases "locked l \<or> c = 0")
  case True
  then have "SQLiteLocker_Lock c l w = (Some (New ''ya esta bloqueado''), l, w)
             \<or> SQLiteLocker_Lock c l w
                  = (Some (Wrapf ''error creando tabla de lock: %w'' [] CtxDone), l, w)"
    by (cases "locked l") (simp_all add: SQLiteLocker_Lock_def)
  with assms have "w1 = w" by auto
  then show ?thesis by (simp add: same_db_def)
next
  case False
  obtain x wa where a: "(if lock_table w then (None, w) else locker_write c w) = (x, wa)"
    by (cases "if lock_table w then (None, w) else locker_write c w")
  have fa: "same_db w wa \<and> driver wa = driver w"
    using a locker_write_frame [of c w x wa] by (auto simp: same_db_def split: if_splits)
  show ?thesis
  proof (cases x)
    case (Some err)
    with assms False a fa show ?thesis by (simp add: SQLiteLocker_Lock_def)
  next
    case None
    obtain y wb where b: "locker_write c (wa\<lparr>lock_table := True\<rparr>) = (y, wb)"
      by (cases "locker_write c (wa\<lparr>lock_table := True\<rparr>)")
    from locker_write_frame [OF b] fa have fb: "same_db w wb \<and> driver wb = driver w"
      by (simp add: same_db_def)
    from assms False a None b have "w1 = wb"
      by (cases y) (simp_all add: SQLiteLocker_Lock_def)
    with fb show ?thesis by simp
  qed
qed

lemma SQLiteLocker_Lock_acquired:
  assumes "SQLiteLocker_Lock c l w = (None, l1, w1)"
  shows "rival w1 = 0 \<and> lock_table w1 \<and> 0 < c \<and> \<not> locked l \<and> l1 = l\<lparr>locked := True\<rparr>"
proof -
  from assms have n: "\<not> locked l" "c \<noteq> 0"
    by (auto simp: SQLiteLocker_Lock_def split: if_splits)
  obtain x wa where a: "(if lock_table w then (None, w) else locker_write c w) = (x, wa)"
    by (cases "if lock_table w then (None, w) else locker_write c w")
  obtain y wb where b: "locker_write c (wa\<lparr>lock_table := True\<rparr>) = (y, wb)"
    by (cases "locker_write c (wa\<lparr>lock_table := True\<rparr>)")
  from assms n a b have r: "x = None" "y = None" "w1 = wb" "l1 = l\<lparr>locked := True\<rparr>"
    by (cases x; cases y; simp add: SQLiteLocker_Lock_def)+
  from locker_write_frame [OF b] r have "rival w1 = 0" "lock_table w1" by simp_all
  with n r show ?thesis by simp
qed

lemma Lock_frame:
  assumes "Lock c l w = (r, l1, w1)"
  shows "same_db w w1 \<and> driver w1 = driver w"
proof (cases "kind l")
  case PostgresLocker
  with assms show ?thesis
    by (auto simp: Lock_def PostgresLocker_Lock_def same_db_def Let_def split: if_splits)
next
  case MySQLLocker
  with assms show ?thesis
    by (auto simp: Lock_def MySQLLocker_Lock_def wait_def same_db_def split: if_splits)
next
  case SQLiteLocker
  with assms have "SQLiteLocker_Lock c l w = (r, l1, w1)" by (simp add: Lock_def)
  then show ?thesis by (rule SQLiteLocker_Lock_frame)
qed

lemma Lock_acquired_rival:
  assumes "Lock c l w = (None, l1, w1)"
  shows "rival w1 = 0 \<and> (kind l = SQLiteLocker \<longrightarrow> lock_table w1) \<and> 0 < c \<and> \<not> locked l
         \<and> l1 = l\<lparr>locked := True\<rparr>"
proof (cases "kind l")
  case PostgresLocker
  with assms show ?thesis
    by (auto simp: Lock_def PostgresLocker_Lock_def Let_def split: if_splits)
next
  case MySQLLocker
  with assms show ?thesis
    by (auto simp: Lock_def MySQLLocker_Lock_def wait_def split: if_splits)
next
  case SQLiteLocker
  with assms have "SQLiteLocker_Lock c l w = (None, l1, w1)" by (simp add: Lock_def)
  from SQLiteLocker_Lock_acquired [OF this] show ?thesis by simp
qed

lemma Lock_free:
  assumes "rival w = 0" and "kind l = SQLiteLocker \<longrightarrow> lock_table w" and "0 < c" and "\<not> locked l"
  shows "Lock c l w = (None, l\<lparr>locked := True\<rparr>, w)"
  using assms
  by (cases "kind l")
     (simp_all add: Lock_def PostgresLocker_Lock_def MySQLLocker_Lock_def SQLiteLocker_Lock_def
        wait_zero world_same_lock_table locker_write_free Let_def)

lemma Lock_again:
  assumes "Lock c l w = (None, l1, w1)" and "rival wb = rival w1" and "lock_table wb = lock_table w1"
  shows "Lock c l wb = (None, l1, wb)"
proof -
  from Lock_acquired_rival [OF assms(1)] have
    h: "rival w1 = 0" "kind l = SQLiteLocker \<longrightarrow> lock_table w1" "0 < c" "\<not> locked l"
       "l1 = l\<lparr>locked := True\<rparr>"
    by blast+
  show ?thesis
    unfolding h(5) by (rule Lock_free) (simp_all add: assms(2,3) h)
qed

lemma NewLocker_driver: "driver w1 = driver w \<Longrightarrow> NewLocker w1 = NewLocker w"
  by (simp add: NewLocker_def)

lemma NewLocker_kind:
  "NewLocker w = Inr l \<Longrightarrow> (kind l = SQLiteLocker) = (driver w = ''sqlite3'')"
  by (auto simp: NewLocker_def split: if_splits)

text \<open>
  The locker a call holds once \<^verbatim>\<open>Lock\<close> has returned \<^verbatim>\<open>nil\<close> keeps the write lock of the
  database exactly when the driver is SQLite.
\<close>

lemma holds_writer_Lock:
  assumes "NewLocker w = Inr l" and "Lock c l w = (None, l1, w1)"
  shows "holds_writer l1 = (driver w = ''sqlite3'')"
proof -
  from Lock_acquired_rival [OF assms(2)] have "l1 = l\<lparr>locked := True\<rparr>" by simp
  then show ?thesis using NewLocker_kind [OF assms(1)] by (simp add: holds_writer_def)
qed

lemma Unlock_world: "Unlock l w = (r, l1, w1) \<Longrightarrow> w1 = w"
  by (auto simp: Unlock_def split: if_splits)

lemma with_lock_dry: "with_lock True body w = body False w"
  by (simp add: with_lock_def)

lemma with_lock_real:
  assumes "with_lock False body w = (r, w')"
  obtains (nolocker) e where "r = Some (Wrapf ''error creando locker: %w'' [] e)" "w' = w"
  | (busy) e l l1 where "r = Some (Wrapf ''no se pudo adquirir lock: %w'' [] e)"
      "NewLocker w = Inr l" "Lock 30 l w = (Some e, l1, w')"
  | (held) l l1 w1 where "NewLocker w = Inr l" "Lock 30 l w = (None, l1, w1)"
      "body (driver w = ''sqlite3'') w1 = (r, w')"
proof (cases "NewLocker w")
  case (Inl e)
  with assms have "r = Some (Wrapf ''error creando locker: %w'' [] e)" "w' = w"
    by (simp_all add: with_lock_def)
  then show ?thesis by (rule nolocker)
next
  case (Inr l)
  obtain x l1 w1 where L: "Lock 30 l w = (x, l1, w1)" by (cases "Lock 30 l w")
  show ?thesis
  proof (cases x)
    case None
    have hw: "holds_writer l1 = (driver w = ''sqlite3'')"
      using Inr L unfolding None by (rule holds_writer_Lock)
    obtain r2 w2 where B: "body (holds_writer l1) w1 = (r2, w2)" by (cases "body (holds_writer l1) w1")
    obtain u l2 w3 where U: "Unlock l1 w2 = (u, l2, w3)" by (cases "Unlock l1 w2")
    have "w3 = w2" using U by (rule Unlock_world)
    with assms Inr L None B U have "body (holds_writer l1) w1 = (r, w')" by (simp add: with_lock_def)
    then have "body (driver w = ''sqlite3'') w1 = (r, w')" by (simp only: hw)
    with Inr L None show ?thesis by (auto intro: held)
  next
    case (Some e)
    with assms Inr L have "r = Some (Wrapf ''no se pudo adquirir lock: %w'' [] e)" "w1 = w'"
      by (simp_all add: with_lock_def)
    with Inr L Some show ?thesis by (auto intro: busy)
  qed
qed

lemma with_lock_held:
  assumes "NewLocker w = Inr l" and "Lock 30 l w = (None, l1, w1)"
  shows "with_lock False body w = body (driver w = ''sqlite3'') w1"
proof -
  have hw: "holds_writer l1 = (driver w = ''sqlite3'')"
    using assms by (rule holds_writer_Lock)
  obtain r2 w2 where B: "body (holds_writer l1) w1 = (r2, w2)" by (cases "body (holds_writer l1) w1")
  obtain u l2 w3 where U: "Unlock l1 w2 = (u, l2, w3)" by (cases "Unlock l1 w2")
  have "w3 = w2" using U by (rule Unlock_world)
  with assms B U have "with_lock False body w = body (holds_writer l1) w1" by (simp add: with_lock_def)
  then show ?thesis by (simp only: hw)
qed

lemma Up_body_eq:
  "Up_body eng dir d b w =
     (if b \<and> ledger w = None then (Some (DbError ''database is locked''), w)
      else
        case Load dir of
          Inl e \<Rightarrow> (Some e, w\<lparr>ledger := Some (rows_of w)\<rparr>)
        | Inr ms \<Rightarrow> up_loop eng b d (sort (rows_of w)) ms (w\<lparr>ledger := Some (rows_of w)\<rparr>))"
  by (simp add: Up_body_def ensure_def applied_def rows_of_def world_same_ledger
      split: sum.split option.split)

subsection \<open>A failed apply script\<close>

lemma Load_readable: "Load dir = Inr ms \<Longrightarrow> \<exists>files. dir = Inr files"
  by (cases dir) (simp_all add: Load_def)

lemma pending_sort [simp]: "pending (sort rows) ms = pending rows ms"
  by (simp add: pending_def)

lemma pending_append [simp]: "pending rows (xs @ ys) = pending rows xs @ pending rows ys"
  by (simp add: pending_def)

lemma set_pending: "set (pending rows ms) = {m \<in> set ms. Version m \<notin> set rows}"
  by (auto simp: pending_def)

lemma sorted_prefix_filter:
  assumes "sorted_wrt (<) (map Version (pre @ m # post))"
  shows "filter (\<lambda>x. Version x < Version m) (pre @ m # post) = pre"
proof -
  from assms have a: "\<forall>x \<in> set pre. Version x < Version m"
    and b: "\<forall>y \<in> set post. Version m < Version y"
    by (auto simp: sorted_wrt_append)
  have "filter (\<lambda>x. Version x < Version m) pre = pre" using a by (simp add: filter_id_conv)
  moreover have "filter (\<lambda>x. Version x < Version m) post = []" using b by (auto simp: filter_empty_conv)
  ultimately show ?thesis by simp
qed

lemma pending_earlier:
  assumes "sorted_wrt (<) (map Version (pre @ m # post))"
  shows "filter (\<lambda>x. Version x < Version m) (pending rows (pre @ m # post)) = pending rows pre"
proof -
  have "filter (\<lambda>x. Version x < Version m) (pending rows (pre @ m # post))
          = pending rows (filter (\<lambda>x. Version x < Version m) (pre @ m # post))"
    unfolding pending_def filter_filter by (rule filter_cong) auto
  then show ?thesis by (simp only: sorted_prefix_filter [OF assms])
qed

lemma Up_script_failed:
  assumes "Up eng dir False w = (Some (Wrapf ''up %d failed: %w'' [v] e), w')"
  shows "\<exists>ms pre m post part r.
           Load dir = Inr ms \<and> ms = pre @ m # post \<and> Version m = v \<and> v \<notin> set (rows_of w)
           \<and> eng (UpSQL m) (objects w') = (part, r)
           \<and> ((\<exists>msg. r = Some msg \<and> e = DbError msg)
                \<or> (driver w = ''sqlite3'' \<and> part \<noteq> objects w'
                    \<and> e = DbError ''database is locked''))
           \<and> ledger w' = Some (rows_of w @ map Version (pending (rows_of w) pre))
           \<and> run_all eng (map UpSQL (pending (rows_of w) pre)) (objects w) = Some (objects w')
           \<and> txs w' = txs w + length (pending (rows_of w) pre) + 1"
proof -
  from assms have "with_lock False (Up_body eng dir False) w
                     = (Some (Wrapf ''up %d failed: %w'' [v] e), w')"
    by (simp add: Up_def)
  then show ?thesis
  proof (cases rule: with_lock_real)
    case (nolocker e0)
    then show ?thesis by simp
  next
    case (busy e0 l l1)
    then show ?thesis by simp
  next
    case (held l l1 w1)
    define b where "b = (driver w = ''sqlite3'')"
    from Lock_frame [OF held(2)] have f: "objects w1 = objects w" "ledger w1 = ledger w" "txs w1 = txs w"
      by (simp_all add: same_db_def)
    then have r: "rows_of w1 = rows_of w" by (simp add: rows_of_def)
    let ?w2 = "w1\<lparr>ledger := Some (rows_of w)\<rparr>"
    from held(3) have B: "Up_body eng dir False b w1 = (Some (Wrapf ''up %d failed: %w'' [v] e), w')"
      by (simp only: b_def)
    then have nb: "\<not> (b \<and> ledger w1 = None)"
      unfolding Up_body_eq by (auto split: if_splits)
    show ?thesis
    proof (cases "Load dir")
      case (Inl e0)
      then obtain msg where "e0 = ReadDirError msg" by (cases dir) (auto simp: Load_def)
      with B nb Inl show ?thesis by (simp add: Up_body_eq)
    next
      case (Inr ms)
      with B nb have "up_loop eng b False (sort (rows_of w)) ms ?w2
                           = (Some (Wrapf ''up %d failed: %w'' [v] e), w')"
        by (simp add: Up_body_eq r)
      from up_loop_failed [OF this] obtain pre m post w0 part x where
        h: "ms = pre @ m # post" "Version m = v" "v \<notin> set (sort (rows_of w))"
           "up_loop eng b False (sort (rows_of w)) pre ?w2 = (None, w0)"
           "eng (UpSQL m) (objects w0) = (part, x)"
           "(\<exists>msg. x = Some msg \<and> e = DbError msg)
              \<or> (b \<and> part \<noteq> objects w0 \<and> e = DbError ''database is locked'')"
           "w' = w0\<lparr>txs := Suc (txs w0)\<rparr>"
        by blast
      have "ledger ?w2 = Some (rows_of w)" by simp
      from up_loop_ok [OF h(4) this] have
        k: "ledger w0 = Some (rows_of w @ map Version (pending (rows_of w) pre))"
           "run_all eng (map UpSQL (pending (rows_of w) pre)) (objects w) = Some (objects w0)"
           "txs w0 = txs w + length (pending (rows_of w) pre)"
        by (simp_all add: f)
      have o: "objects w' = objects w0" by (simp add: h(7))
      have c: "(\<exists>msg. x = Some msg \<and> e = DbError msg)
                 \<or> (driver w = ''sqlite3'' \<and> part \<noteq> objects w'
                     \<and> e = DbError ''database is locked'')"
        using h(6) unfolding o b_def .
      have "eng (UpSQL m) (objects w') = (part, x)" using h(5) by (simp only: o)
      moreover have "v \<notin> set (rows_of w)" using h(3) by simp
      moreover have "ledger w' = Some (rows_of w @ map Version (pending (rows_of w) pre))"
        using k(1) by (simp add: h(7))
      moreover have "run_all eng (map UpSQL (pending (rows_of w) pre)) (objects w) = Some (objects w')"
        using k(2) by (simp only: o)
      moreover have "txs w' = txs w + length (pending (rows_of w) pre) + 1"
        using k(3) by (simp add: h(7))
      ultimately show ?thesis
        using Inr h(1,2) c by blast
    qed
  qed
qed

subsection \<open>A failed revert script\<close>

lemma last_sort_Max:
  assumes "rows \<noteq> []"
  shows "last (sort rows) = Max (set (rows :: int list))"
proof -
  define xs where "xs = sort rows"
  have s: "sorted xs" and se: "set xs = set rows" by (simp_all add: xs_def)
  have ne: "xs \<noteq> []" using assms se by auto
  have "Max (set xs) = last xs"
  proof (rule Max_eqI)
    show "finite (set xs)" by simp
    show "last xs \<in> set xs" using ne by (rule last_in_set)
    fix y assume "y \<in> set xs"
    then obtain i where i: "i < length xs" "xs ! i = y"
      by (auto simp: in_set_conv_nth)
    have "xs ! i \<le> xs ! (length xs - 1)"
      by (rule sorted_nth_mono) (use i ne s in simp_all)
    then show "y \<le> last xs" using i(2) ne by (simp add: last_conv_nth)
  qed
  then show ?thesis by (simp add: se flip: xs_def)
qed

lemma Down_body_eq:
  "Down_body eng dir d b w =
     (case Load dir of
        Inl e \<Rightarrow> (Some (New ''no migration to rollback''), w)
      | Inr ms \<Rightarrow>
          if rows_of w = [] then (Some (New ''no migration to rollback''), w)
          else (case find (\<lambda>m. Version m = Max (set (rows_of w))) ms of
                  None \<Rightarrow> (Some (New ''no down migration found''), w)
                | Some t \<Rightarrow>
                    if DownSQL t = [] then (Some (New ''no down migration found''), w)
                    else if d then (None, w)
                    else Down_tx eng b t w))"
  by (simp add: Down_body_def last_version_def rows_of_def last_sort_Max
      split: sum.split option.split)

lemma Down_tx_script_failed:
  assumes "Down_tx eng b t w = (Some (Wrapf ''error ejecutando down migration: %w'' [] e), w1)"
  shows "(\<exists>ob r. eng (DownSQL t) (objects w) = (ob, r)
            \<and> ((\<exists>msg. r = Some msg \<and> e = DbError msg)
                 \<or> (b \<and> ob \<noteq> objects w \<and> e = DbError ''database is locked'')))
         \<and> w1 = w\<lparr>txs := Suc (txs w)\<rparr>"
  using assms unfolding Down_tx_eq
  by (auto split: prod.splits option.splits if_splits)

lemma Down_script_failed:
  assumes "Down eng dir False w = (Some (Wrapf ''error ejecutando down migration: %w'' [] e), w')"
  shows "\<exists>ms t part r.
           Load dir = Inr ms \<and> rows_of w \<noteq> [] \<and> t \<in> set ms \<and> Version t = Max (set (rows_of w))
           \<and> eng (DownSQL t) (objects w) = (part, r)
           \<and> ((\<exists>msg. r = Some msg \<and> e = DbError msg)
                \<or> (driver w = ''sqlite3'' \<and> part \<noteq> objects w
                    \<and> e = DbError ''database is locked''))
           \<and> objects w' = objects w \<and> ledger w' = ledger w \<and> txs w' = txs w + 1"
proof -
  from assms have "with_lock False (Down_body eng dir False) w
                     = (Some (Wrapf ''error ejecutando down migration: %w'' [] e), w')"
    by (simp add: Down_def)
  then show ?thesis
  proof (cases rule: with_lock_real)
    case (nolocker e0)
    then show ?thesis by simp
  next
    case (busy e0 l l1)
    then show ?thesis by simp
  next
    case (held l l1 w1)
    define b where "b = (driver w = ''sqlite3'')"
    from Lock_frame [OF held(2)] have f: "objects w1 = objects w" "ledger w1 = ledger w" "txs w1 = txs w"
      by (simp_all add: same_db_def)
    then have r: "rows_of w1 = rows_of w" by (simp add: rows_of_def)
    from held(3) have B: "Down_body eng dir False b w1
                            = (Some (Wrapf ''error ejecutando down migration: %w'' [] e), w')"
      by (simp only: b_def)
    then obtain ms t where
      h: "Load dir = Inr ms" "rows_of w \<noteq> []"
         "find (\<lambda>m. Version m = Max (set (rows_of w))) ms = Some t"
         "Down_tx eng b t w1 = (Some (Wrapf ''error ejecutando down migration: %w'' [] e), w')"
      unfolding Down_body_eq r
      by (auto split: sum.splits option.splits if_splits)
    from h(3) have t: "t \<in> set ms" "Version t = Max (set (rows_of w))"
      by (auto simp: find_Some_iff)
    from Down_tx_script_failed [OF h(4)] obtain part x where
      k: "eng (DownSQL t) (objects w) = (part, x)"
         "(\<exists>msg. x = Some msg \<and> e = DbError msg)
            \<or> (b \<and> part \<noteq> objects w \<and> e = DbError ''database is locked'')"
         "w' = w1\<lparr>txs := Suc (txs w1)\<rparr>"
      unfolding f by blast
    have c: "(\<exists>msg. x = Some msg \<and> e = DbError msg)
               \<or> (driver w = ''sqlite3'' \<and> part \<noteq> objects w
                   \<and> e = DbError ''database is locked'')"
      using k(2) unfolding b_def .
    have "objects w' = objects w" "ledger w' = ledger w" "txs w' = txs w + 1"
      using f by (simp_all add: k(3))
    with h(1,2) t k(1) c show ?thesis by blast
  qed
qed

text \<open>
  C2. When the apply script of a migration fails in \<^verbatim>\<open>Up\<close>, the state \<^verbatim>\<open>Up\<close> leaves holds
  nothing of that script: its objects are the ones the failing script was started on,
  which are the objects of the call after the apply scripts of the pending migrations of
  lower version, each run to its end; and the ledger has no row for the failed version.
  When the revert script fails in \<^verbatim>\<open>Down\<close>, objects and ledger are those of before, and
  the row of the most recent version is still there. The error of the script is the
  error of one of its statements or, on SQLite, the refusal of its write by the lock
  that the transaction of the locker holds.
\<close>

theorem C2_failed_script_is_rolled_back:
  "(Up eng dir False w = (Some (Wrapf ''up %d failed: %w'' [v] e), w') \<longrightarrow>
      (\<exists>ms m part r.
          Load dir = Inr ms \<and> m \<in> set ms \<and> Version m = v
          \<and> eng (UpSQL m) (objects w') = (part, r)
          \<and> ((\<exists>msg. r = Some msg \<and> e = DbError msg)
               \<or> (driver w = ''sqlite3'' \<and> part \<noteq> objects w'
                   \<and> e = DbError ''database is locked''))
          \<and> run_all eng (map UpSQL (filter (\<lambda>x. Version x < v) (pending (rows_of w) ms)))
               (objects w) = Some (objects w')
          \<and> v \<notin> set (rows_of w)
          \<and> v \<notin> set (rows_of w')))
   \<and> (Down eng dir False w = (Some (Wrapf ''error ejecutando down migration: %w'' [] e), w') \<longrightarrow>
      (\<exists>ms t part r.
          Load dir = Inr ms \<and> t \<in> set ms \<and> Version t = Max (set (rows_of w))
          \<and> eng (DownSQL t) (objects w) = (part, r)
          \<and> ((\<exists>msg. r = Some msg \<and> e = DbError msg)
               \<or> (driver w = ''sqlite3'' \<and> part \<noteq> objects w
                   \<and> e = DbError ''database is locked'')))
      \<and> objects w' = objects w \<and> ledger w' = ledger w
      \<and> Max (set (rows_of w)) \<in> set (rows_of w'))"
proof (rule conjI; rule impI)
  assume "Up eng dir False w = (Some (Wrapf ''up %d failed: %w'' [v] e), w')"
  from Up_script_failed [OF this] obtain ms pre m post part r where
    h: "Load dir = Inr ms" "ms = pre @ m # post" "Version m = v" "v \<notin> set (rows_of w)"
       "eng (UpSQL m) (objects w') = (part, r)"
       "(\<exists>msg. r = Some msg \<and> e = DbError msg)
          \<or> (driver w = ''sqlite3'' \<and> part \<noteq> objects w' \<and> e = DbError ''database is locked'')"
       "ledger w' = Some (rows_of w @ map Version (pending (rows_of w) pre))"
       "run_all eng (map UpSQL (pending (rows_of w) pre)) (objects w) = Some (objects w')"
    by blast
  have s: "sorted_wrt (<) (map Version (pre @ m # post))"
    using Load_sorted [OF h(1)] by (simp only: h(2))
  have p: "filter (\<lambda>x. Version x < v) (pending (rows_of w) ms) = pending (rows_of w) pre"
    using pending_earlier [OF s] by (simp only: h(2,3))
  from s have "\<forall>x \<in> set pre. Version x < Version m" by (auto simp: sorted_wrt_append)
  then have "v \<notin> Version ` set (pending (rows_of w) pre)"
    using h(3) by (auto simp: set_pending)
  then have n: "v \<notin> set (rows_of w')" using h(4,7) by (simp add: rows_of_def)
  have "m \<in> set ms" by (simp add: h(2))
  then show "\<exists>ms m part r.
          Load dir = Inr ms \<and> m \<in> set ms \<and> Version m = v
          \<and> eng (UpSQL m) (objects w') = (part, r)
          \<and> ((\<exists>msg. r = Some msg \<and> e = DbError msg)
               \<or> (driver w = ''sqlite3'' \<and> part \<noteq> objects w'
                   \<and> e = DbError ''database is locked''))
          \<and> run_all eng (map UpSQL (filter (\<lambda>x. Version x < v) (pending (rows_of w) ms)))
               (objects w) = Some (objects w')
          \<and> v \<notin> set (rows_of w)
          \<and> v \<notin> set (rows_of w')"
    using h(1,3,4,5,6,8) n unfolding p [symmetric] by blast
next
  assume a: "Down eng dir False w = (Some (Wrapf ''error ejecutando down migration: %w'' [] e), w')"
  from Down_script_failed [OF a] obtain ms t part r where
    h: "Load dir = Inr ms" "rows_of w \<noteq> []" "t \<in> set ms" "Version t = Max (set (rows_of w))"
       "eng (DownSQL t) (objects w) = (part, r)"
       "(\<exists>msg. r = Some msg \<and> e = DbError msg)
          \<or> (driver w = ''sqlite3'' \<and> part \<noteq> objects w \<and> e = DbError ''database is locked'')"
       "objects w' = objects w" "ledger w' = ledger w"
    by blast
  have m: "Max (set (rows_of w)) \<in> set (rows_of w)" using h(2) by simp
  have "rows_of w' = rows_of w" using h(8) by (simp add: rows_of_def)
  with m have m': "Max (set (rows_of w)) \<in> set (rows_of w')" by simp
  have "\<exists>ms t part r.
          Load dir = Inr ms \<and> t \<in> set ms \<and> Version t = Max (set (rows_of w))
          \<and> eng (DownSQL t) (objects w) = (part, r)
          \<and> ((\<exists>msg. r = Some msg \<and> e = DbError msg)
               \<or> (driver w = ''sqlite3'' \<and> part \<noteq> objects w
                   \<and> e = DbError ''database is locked''))"
    using h(1,3,4,5,6) by blast
  then show "(\<exists>ms t part r.
          Load dir = Inr ms \<and> t \<in> set ms \<and> Version t = Max (set (rows_of w))
          \<and> eng (DownSQL t) (objects w) = (part, r)
          \<and> ((\<exists>msg. r = Some msg \<and> e = DbError msg)
               \<or> (driver w = ''sqlite3'' \<and> part \<noteq> objects w
                   \<and> e = DbError ''database is locked'')))
      \<and> objects w' = objects w \<and> ledger w' = ledger w
      \<and> Max (set (rows_of w)) \<in> set (rows_of w')"
    using h(7,8) m' by (intro conjI)
qed

text \<open>
  The cases on the example engine: on Postgres, an apply script that fails after
  creating two tables and a revert script that fails after dropping one; on SQLite, an
  apply script whose first statement is refused.
\<close>

theorem C2_failed_script_is_rolled_back_witness:
  "Up toy_engine dir_bad_up False (toy_world ''postgres'' 0 None) =
     (Some (Wrapf ''up %d failed: %w'' [1] (DbError ''syntax error'')),
      \<lparr>objects = [], ledger = Some [], lock_table = False, driver = ''postgres'', rival = 0,
         txs = 1\<rparr>)
   \<and> toy_engine ''+test1;+test2;INVALID SQL HERE'' [] = ([''test1'', ''test2''], Some ''syntax error'')
   \<and> (1::int) \<notin> set (rows_of (\<lparr>objects = [], ledger = Some [], lock_table = False,
                                   driver = ''postgres'', rival = 0, txs = 1\<rparr> :: string list world))
   \<and> Down toy_engine dir_bad_down False ((toy_world ''postgres'' 0 (Some [1]))\<lparr>objects := [''test1'']\<rparr>) =
       (Some (Wrapf ''error ejecutando down migration: %w'' [] (DbError ''syntax error'')),
        \<lparr>objects = [''test1''], ledger = Some [1], lock_table = False, driver = ''postgres'',
           rival = 0, txs = 1\<rparr>)
   \<and> Max (set (rows_of ((toy_world ''postgres'' 0 (Some [1]))\<lparr>objects := [''test1'']\<rparr>)))
       \<in> set (rows_of \<lparr>objects = [''test1''], ledger = Some [1], lock_table = False,
                        driver = ''postgres'', rival = 0, txs = 1\<rparr>)
   \<and> Up toy_engine dir_bad_up False (toy_world ''sqlite3'' 0 (Some [])) =
       (Some (Wrapf ''up %d failed: %w'' [1] (DbError ''database is locked'')),
        \<lparr>objects = [], ledger = Some [], lock_table = True, driver = ''sqlite3'', rival = 0,
           txs = 1\<rparr>)
   \<and> (1::int) \<notin> set (rows_of (\<lparr>objects = [], ledger = Some [], lock_table = True,
                                   driver = ''sqlite3'', rival = 0, txs = 1\<rparr> :: string list world))"
proof -
  let ?wa = "\<lparr>objects = [], ledger = Some [], lock_table = False, driver = ''postgres'', rival = 0,
               txs = 1\<rparr> :: string list world"
  let ?wb = "(toy_world ''postgres'' 0 (Some [1]))\<lparr>objects := [''test1'']\<rparr>"
  let ?wb' = "\<lparr>objects = [''test1''], ledger = Some [1], lock_table = False, driver = ''postgres'',
                rival = 0, txs = 1\<rparr> :: string list world"
  let ?ws = "\<lparr>objects = [], ledger = Some [], lock_table = True, driver = ''sqlite3'', rival = 0,
               txs = 1\<rparr> :: string list world"
  have u: "Up toy_engine dir_bad_up False (toy_world ''postgres'' 0 None) =
             (Some (Wrapf ''up %d failed: %w'' [1] (DbError ''syntax error'')), ?wa)"
    by code_simp
  have p: "toy_engine ''+test1;+test2;INVALID SQL HERE'' [] = ([''test1'', ''test2''], Some ''syntax error'')"
    by code_simp
  have d: "Down toy_engine dir_bad_down False ?wb =
             (Some (Wrapf ''error ejecutando down migration: %w'' [] (DbError ''syntax error'')), ?wb')"
    by code_simp
  have s: "Up toy_engine dir_bad_up False (toy_world ''sqlite3'' 0 (Some [])) =
             (Some (Wrapf ''up %d failed: %w'' [1] (DbError ''database is locked'')), ?ws)"
    by code_simp
  from C2_failed_script_is_rolled_back [THEN conjunct1, rule_format, OF u]
  have a: "(1::int) \<notin> set (rows_of ?wa)" by (elim exE conjE) assumption
  from C2_failed_script_is_rolled_back [THEN conjunct2, rule_format, OF d]
  have b: "Max (set (rows_of ?wb)) \<in> set (rows_of ?wb')" by (elim exE conjE) assumption
  from C2_failed_script_is_rolled_back [THEN conjunct1, rule_format, OF s]
  have c: "(1::int) \<notin> set (rows_of ?ws)" by (elim exE conjE) assumption
  show ?thesis
    by (intro conjI u p a d b s c)
qed

text \<open>
  C10. When the apply script of the pending migration of version \<open>v\<close> fails, \<^verbatim>\<open>Up\<close> leaves
  the pending migrations of lower version applied and recorded: the ledger is the one of
  before followed by their versions, the objects are those their apply scripts built,
  one transaction was opened for each of them and one for the failed migration, and no
  pending migration of version \<open>v\<close> or higher is recorded.
\<close>

theorem C10_Up_keeps_earlier_migrations:
  assumes "Up eng dir False w = (Some (Wrapf ''up %d failed: %w'' [v] e), w')"
  shows "\<exists>ms. Load dir = Inr ms
           \<and> ledger w' = Some (rows_of w @ map Version (filter (\<lambda>x. Version x < v) (pending (rows_of w) ms)))
           \<and> run_all eng (map UpSQL (filter (\<lambda>x. Version x < v) (pending (rows_of w) ms)))
                (objects w) = Some (objects w')
           \<and> txs w' = txs w + length (filter (\<lambda>x. Version x < v) (pending (rows_of w) ms)) + 1
           \<and> (\<forall>m \<in> set (pending (rows_of w) ms). v \<le> Version m \<longrightarrow> Version m \<notin> set (rows_of w'))"
proof -
  from Up_script_failed [OF assms] obtain ms pre m post where
    h: "Load dir = Inr ms" "ms = pre @ m # post" "Version m = v"
       "ledger w' = Some (rows_of w @ map Version (pending (rows_of w) pre))"
       "run_all eng (map UpSQL (pending (rows_of w) pre)) (objects w) = Some (objects w')"
       "txs w' = txs w + length (pending (rows_of w) pre) + 1"
    by blast
  have s: "sorted_wrt (<) (map Version (pre @ m # post))"
    using Load_sorted [OF h(1)] by (simp only: h(2))
  have p: "pending (rows_of w) pre = filter (\<lambda>x. Version x < v) (pending (rows_of w) ms)"
    using pending_earlier [OF s] by (simp only: h(2,3))
  have later: "\<forall>m \<in> set (pending (rows_of w) ms). v \<le> Version m \<longrightarrow> Version m \<notin> set (rows_of w')"
  proof (intro ballI impI)
    fix x assume x: "x \<in> set (pending (rows_of w) ms)" "v \<le> Version x"
    have "Version x \<notin> set (rows_of w)" using x(1) by (simp add: set_pending)
    moreover have "Version x \<notin> Version ` set (filter (\<lambda>x. Version x < v) (pending (rows_of w) ms))"
      using x(2) by auto
    ultimately show "Version x \<notin> set (rows_of w')"
      using h(4) unfolding p by (simp add: rows_of_def)
  qed
  show ?thesis
    using h(1,4,5,6) later unfolding p by blast
qed

text \<open>Three pending migrations of which the second fails: the first stays, the third is not run.\<close>

theorem C10_Up_keeps_earlier_migrations_witness:
  "Up toy_engine dir_bad_second False (toy_world ''mysql'' 0 None) =
     (Some (Wrapf ''up %d failed: %w'' [2] (DbError ''syntax error'')),
      \<lparr>objects = [''users''], ledger = Some [1], lock_table = False, driver = ''mysql'',
         rival = 0, txs = 2\<rparr>)
   \<and> (\<exists>ms. Load dir_bad_second = Inr ms
        \<and> Some [1] = Some (rows_of (toy_world ''mysql'' 0 None :: string list world)
               @ map Version (filter (\<lambda>x. Version x < 2)
                   (pending (rows_of (toy_world ''mysql'' 0 None :: string list world)) ms)))
        \<and> (\<forall>m \<in> set (pending (rows_of (toy_world ''mysql'' 0 None :: string list world)) ms).
              2 \<le> Version m \<longrightarrow> Version m \<notin> set [1]))"
proof -
  let ?w = "toy_world ''mysql'' 0 None :: string list world"
  let ?w' = "\<lparr>objects = [''users''], ledger = Some [1::int], lock_table = False, driver = ''mysql'',
               rival = 0, txs = 2\<rparr> :: string list world"
  have u: "Up toy_engine dir_bad_second False ?w =
             (Some (Wrapf ''up %d failed: %w'' [2] (DbError ''syntax error'')), ?w')"
    by code_simp
  have r: "rows_of ?w' = [1]" "ledger ?w' = Some [1]" by (simp_all add: rows_of_def)
  from C10_Up_keeps_earlier_migrations [OF u] show ?thesis
    unfolding r using u by blast
qed

subsection \<open>Idempotence of Up\<close>

lemma Up_ok:
  assumes "Up eng dir False w = (None, w')"
  shows "\<exists>ms l l1 w1.
           Load dir = Inr ms \<and> NewLocker w = Inr l \<and> Lock 30 l w = (None, l1, w1)
           \<and> ledger w' = Some (rows_of w @ map Version (pending (rows_of w) ms))
           \<and> run_all eng (map UpSQL (pending (rows_of w) ms)) (objects w) = Some (objects w')
           \<and> txs w' = txs w + length (pending (rows_of w) ms)
           \<and> lock_table w' = lock_table w1 \<and> driver w' = driver w \<and> rival w' = rival w1"
proof -
  from assms have "with_lock False (Up_body eng dir False) w = (None, w')"
    by (simp add: Up_def)
  then show ?thesis
  proof (cases rule: with_lock_real)
    case (nolocker e0)
    then show ?thesis by simp
  next
    case (busy e0 l l1)
    then show ?thesis by simp
  next
    case (held l l1 w1)
    define b where "b = (driver w = ''sqlite3'')"
    from Lock_frame [OF held(2)] have
      f: "objects w1 = objects w" "ledger w1 = ledger w" "txs w1 = txs w" "driver w1 = driver w"
      by (simp_all add: same_db_def)
    then have r: "rows_of w1 = rows_of w" by (simp add: rows_of_def)
    let ?w2 = "w1\<lparr>ledger := Some (rows_of w)\<rparr>"
    from held(3) have B: "Up_body eng dir False b w1 = (None, w')" by (simp only: b_def)
    then have nb: "\<not> (b \<and> ledger w1 = None)"
      unfolding Up_body_eq by (auto split: if_splits)
    from B nb obtain ms where
      ms: "Load dir = Inr ms" and
      l: "up_loop eng b False (sort (rows_of w)) ms ?w2 = (None, w')"
      unfolding Up_body_eq r by (auto split: sum.splits)
    have "ledger ?w2 = Some (rows_of w)" by simp
    from up_loop_ok [OF l this] have
      "ledger w' = Some (rows_of w @ map Version (pending (rows_of w) ms))"
      "run_all eng (map UpSQL (pending (rows_of w) ms)) (objects w) = Some (objects w')"
      "txs w' = txs w + length (pending (rows_of w) ms)"
      "lock_table w' = lock_table w1" "driver w' = driver w" "rival w' = rival w1"
      by (simp_all add: f)
    with ms held(1,2) show ?thesis by blast
  qed
qed

lemma Up_again:
  assumes "Up eng dir False w = (None, w')"
  shows "Up eng dir False w' = (None, w')"
proof -
  from Up_ok [OF assms] obtain ms l l1 w1 where
    h: "Load dir = Inr ms" "NewLocker w = Inr l" "Lock 30 l w = (None, l1, w1)"
       "ledger w' = Some (rows_of w @ map Version (pending (rows_of w) ms))"
       "lock_table w' = lock_table w1" "driver w' = driver w" "rival w' = rival w1"
    by blast
  have n: "NewLocker w' = Inr l" using NewLocker_driver [OF h(6)] h(2) by simp
  have k: "Lock 30 l w' = (None, l1, w')" using h(3) h(7) h(5) by (rule Lock_again)
  have r: "rows_of w' = rows_of w @ map Version (pending (rows_of w) ms)"
    using h(4) by (simp add: rows_of_def)
  have ls: "ledger w' = Some (rows_of w')" using h(4) r by simp
  then have e: "w'\<lparr>ledger := Some (rows_of w')\<rparr> = w'" by (rule world_same_ledger)
  have "Version ` set ms \<subseteq> set (sort (rows_of w'))"
    unfolding r by (auto simp: set_pending)
  then have "up_loop eng b False (sort (rows_of w')) ms w' = (None, w')" for b
    by (rule up_loop_skip)
  then have "Up_body eng dir False b w' = (None, w')" for b
    by (simp add: Up_body_eq h(1) e ls)
  then show ?thesis
    unfolding Up_def with_lock_held [OF n k] .
qed

text \<open>
  C3. After a successful \<^verbatim>\<open>Up\<close>, every further \<^verbatim>\<open>Up\<close> on the same directory, after any
  number \<open>n\<close> of such calls, returns \<^verbatim>\<open>nil\<close> and leaves the state of the first call as it
  is: the ledger, the objects and the transaction count do not change.
\<close>

theorem C3_Up_idempotent:
  assumes "Up eng dir False w = (None, w1)"
  shows "Up eng dir False (((\<lambda>x. snd (Up eng dir False x)) ^^ n) w1) = (None, w1)
         \<and> ledger (snd (Up eng dir False (((\<lambda>x. snd (Up eng dir False x)) ^^ n) w1))) = ledger w1"
proof -
  have a: "Up eng dir False w1 = (None, w1)" using assms by (rule Up_again)
  have "((\<lambda>x. snd (Up eng dir False x)) ^^ n) w1 = w1"
    by (induction n) (simp_all add: a)
  then show ?thesis by (simp add: a)
qed

text \<open>
  On Postgres, three migrations applied by a first call; the calls that follow change
  nothing. On SQLite, where a first call succeeds only when nothing is pending, three
  migrations found applied; the calls that follow change nothing either.
\<close>

theorem C3_Up_idempotent_witness:
  "Up toy_engine dir123 False (toy_world ''postgres'' 0 None) =
     (None, \<lparr>objects = [''users'', ''posts'', ''tags''], ledger = Some [1, 2, 3],
             lock_table = False, driver = ''postgres'', rival = 0, txs = 3\<rparr>)
   \<and> Up toy_engine dir123 False
       (snd (Up toy_engine dir123 False
          \<lparr>objects = [''users'', ''posts'', ''tags''], ledger = Some [1, 2, 3],
             lock_table = False, driver = ''postgres'', rival = 0, txs = 3\<rparr>)) =
     (None, \<lparr>objects = [''users'', ''posts'', ''tags''], ledger = Some [1, 2, 3],
             lock_table = False, driver = ''postgres'', rival = 0, txs = 3\<rparr>)
   \<and> Up toy_engine dir123 False
       \<lparr>objects = [''users'', ''posts'', ''tags''], ledger = Some [1, 2, 3],
          lock_table = False, driver = ''sqlite3'', rival = 0, txs = 0\<rparr> =
     (None, \<lparr>objects = [''users'', ''posts'', ''tags''], ledger = Some [1, 2, 3],
             lock_table = True, driver = ''sqlite3'', rival = 0, txs = 0\<rparr>)
   \<and> Up toy_engine dir123 False
       (snd (Up toy_engine dir123 False
          \<lparr>objects = [''users'', ''posts'', ''tags''], ledger = Some [1, 2, 3],
             lock_table = True, driver = ''sqlite3'', rival = 0, txs = 0\<rparr>)) =
     (None, \<lparr>objects = [''users'', ''posts'', ''tags''], ledger = Some [1, 2, 3],
             lock_table = True, driver = ''sqlite3'', rival = 0, txs = 0\<rparr>)"
proof -
  let ?P = "\<lparr>objects = [''users'', ''posts'', ''tags''], ledger = Some [1, 2, 3],
             lock_table = False, driver = ''postgres'', rival = 0, txs = 3\<rparr> :: string list world"
  let ?T = "\<lparr>objects = [''users'', ''posts'', ''tags''], ledger = Some [1, 2, 3],
             lock_table = False, driver = ''sqlite3'', rival = 0, txs = 0\<rparr> :: string list world"
  let ?S = "\<lparr>objects = [''users'', ''posts'', ''tags''], ledger = Some [1, 2, 3],
             lock_table = True, driver = ''sqlite3'', rival = 0, txs = 0\<rparr> :: string list world"
  have u: "Up toy_engine dir123 False (toy_world ''postgres'' 0 None) = (None, ?P)"
    by code_simp
  have s: "Up toy_engine dir123 False ?T = (None, ?S)"
    by code_simp
  from C3_Up_idempotent [OF u, of "Suc 0"]
  have a: "Up toy_engine dir123 False (snd (Up toy_engine dir123 False ?P)) = (None, ?P)"
    by simp
  from C3_Up_idempotent [OF s, of "Suc 0"]
  have b: "Up toy_engine dir123 False (snd (Up toy_engine dir123 False ?S)) = (None, ?S)"
    by simp
  show ?thesis
    by (intro conjI u a s b)
qed

subsection \<open>The target of Down\<close>

lemma find_unique:
  assumes "distinct (map f xs)" and "t \<in> set xs" and "f t = v"
  shows "find (\<lambda>m. f m = v) xs = Some t"
  using assms by (induction xs) (auto simp: image_iff)

lemma Load_find:
  assumes "Load dir = Inr ms" and "t \<in> set ms" and "Version t = v"
  shows "find (\<lambda>m. Version m = v) ms = Some t"
proof -
  have "sorted_wrt (<) (map Version ms)" using assms(1) by (rule Load_sorted)
  then have "distinct (map Version ms)" by (simp only: strict_sorted_iff)
  then show ?thesis using assms(2,3) by (rule find_unique)
qed

text \<open>
  What \<^verbatim>\<open>Down\<close> does once the lock is acquired and the directory is read. It fails with
  \<^verbatim>\<open>no migration to rollback\<close> when the ledger has no row, and with
  \<^verbatim>\<open>no down migration found\<close> when no loaded migration of the highest recorded version
  has a revert script; in both cases the state is the one the lock acquisition left.
  Otherwise, on Postgres and MySQL, it runs the revert script of the loaded migration of
  the highest recorded version and deletes that version's row, in one transaction, and
  returns \<^verbatim>\<open>nil\<close> when the script succeeds. On SQLite it opens the transaction and
  fails, whatever the script is, and reverts nothing.
\<close>

lemma Down_after_lock:
  assumes "NewLocker w = Inr l" and "Lock 30 l w = (None, l1, w1)" and "Load dir = Inr ms"
  shows "(rows_of w = [] \<longrightarrow>
            Down eng dir False w = (Some (New ''no migration to rollback''), w1))
       \<and> (rows_of w \<noteq> [] \<and> (\<forall>t \<in> set ms. Version t = Max (set (rows_of w)) \<longrightarrow> DownSQL t = []) \<longrightarrow>
            Down eng dir False w = (Some (New ''no down migration found''), w1))
       \<and> (driver w \<noteq> ''sqlite3'' \<and> rows_of w \<noteq> [] \<and> t \<in> set ms
            \<and> Version t = Max (set (rows_of w)) \<and> DownSQL t \<noteq> []
            \<and> eng (DownSQL t) (objects w) = (ob, None) \<longrightarrow>
            Down eng dir False w =
              (None, w1\<lparr>objects := ob,
                        ledger := Some (filter (\<lambda>x. x \<noteq> Max (set (rows_of w))) (rows_of w)),
                        txs := Suc (txs w)\<rparr>))
       \<and> (driver w = ''sqlite3'' \<and> rows_of w \<noteq> [] \<and> t \<in> set ms
            \<and> Version t = Max (set (rows_of w)) \<and> DownSQL t \<noteq> [] \<longrightarrow>
            fst (Down eng dir False w) \<noteq> None
            \<and> snd (Down eng dir False w) = w1\<lparr>txs := Suc (txs w)\<rparr>)"
proof -
  define b where "b = (driver w = ''sqlite3'')"
  from Lock_frame [OF assms(2)] have f: "objects w1 = objects w" "ledger w1 = ledger w" "txs w1 = txs w"
    by (simp_all add: same_db_def)
  then have r: "rows_of w1 = rows_of w" by (simp add: rows_of_def)
  have D: "Down eng dir False w = Down_body eng dir False b w1"
    unfolding Down_def b_def by (rule with_lock_held [OF assms(1,2)])
  have a: "Down eng dir False w = (Some (New ''no migration to rollback''), w1)" if "rows_of w = []"
    using that by (simp add: D Down_body_eq assms(3) r)
  have n: "Down eng dir False w = (Some (New ''no down migration found''), w1)"
    if "rows_of w \<noteq> []" and n: "\<forall>t \<in> set ms. Version t = Max (set (rows_of w)) \<longrightarrow> DownSQL t = []"
  proof (cases "find (\<lambda>m. Version m = Max (set (rows_of w))) ms")
    case None
    then show ?thesis using that(1) by (simp add: D Down_body_eq assms(3) r)
  next
    case (Some t)
    then have "t \<in> set ms" "Version t = Max (set (rows_of w))" by (auto simp: find_Some_iff)
    with n have "DownSQL t = []" by blast
    then show ?thesis using that(1) Some by (simp add: D Down_body_eq assms(3) r)
  qed
  have B: "Down eng dir False w = Down_tx eng b t w1"
    if "rows_of w \<noteq> []" "t \<in> set ms" "Version t = Max (set (rows_of w))" "DownSQL t \<noteq> []"
  proof -
    have fd: "find (\<lambda>m. Version m = Max (set (rows_of w))) ms = Some t"
      using assms(3) that(2,3) by (rule Load_find)
    show ?thesis
      using that(1,4) by (simp add: D Down_body_eq assms(3) r fd)
  qed
  have c: "Down eng dir False w =
              (None, w1\<lparr>objects := ob,
                        ledger := Some (filter (\<lambda>x. x \<noteq> Max (set (rows_of w))) (rows_of w)),
                        txs := Suc (txs w)\<rparr>)"
    if "driver w \<noteq> ''sqlite3''"
       "rows_of w \<noteq> []" "t \<in> set ms" "Version t = Max (set (rows_of w))" "DownSQL t \<noteq> []"
       "eng (DownSQL t) (objects w) = (ob, None)"
  proof -
    from that(2) obtain rows where rows: "ledger w = Some rows" "rows_of w = rows"
      by (cases "ledger w") (simp_all add: rows_of_def)
    have nb: "\<not> b" using that(1) by (simp add: b_def)
    have "Down_tx eng b t w1 =
            (None, w1\<lparr>objects := ob, ledger := Some (filter (\<lambda>x. x \<noteq> Version t) rows),
                      txs := Suc (txs w)\<rparr>)"
      using that(6) nb by (simp add: Down_tx_eq f rows(1))
    then show ?thesis
      by (simp only: B [OF that(2,3,4,5)] that(4) rows(2))
  qed
  have s: "fst (Down eng dir False w) \<noteq> None
           \<and> snd (Down eng dir False w) = w1\<lparr>txs := Suc (txs w)\<rparr>"
    if "driver w = ''sqlite3''"
       "rows_of w \<noteq> []" "t \<in> set ms" "Version t = Max (set (rows_of w))" "DownSQL t \<noteq> []"
  proof -
    have "b" using that(1) by (simp add: b_def)
    then show ?thesis
      using Down_tx_blocked [of eng t w1] by (simp add: B [OF that(2,3,4,5)] f)
  qed
  show ?thesis using a n c s by blast
qed

text \<open>
  C6. \<^verbatim>\<open>Down\<close> should revert the most recently applied migration. On driver
  \<^verbatim>\<open>sqlite3\<close> it reverts nothing: with versions 1, 2 and 3 applied, the revert script of
  version 3 is refused by the write lock that the transaction of the call's own locker
  holds, and \<^verbatim>\<open>Down\<close> returns \<^verbatim>\<open>database is locked\<close> with objects and ledger as they
  were; with a revert script that writes nothing, the script passes and the deletion
  of the ledger row is refused. On driver \<^verbatim>\<open>postgres\<close> the same call on the same state
  reverts version 3.
\<close>

theorem C6_Down_on_sqlite_reverts_nothing:
  "Down toy_engine dir123 False
     \<lparr>objects = [''users'', ''posts'', ''tags''], ledger = Some [1, 2, 3], lock_table = True,
        driver = ''sqlite3'', rival = 0, txs = 3\<rparr> =
     (Some (Wrapf ''error ejecutando down migration: %w'' [] (DbError ''database is locked'')),
      \<lparr>objects = [''users'', ''posts'', ''tags''], ledger = Some [1, 2, 3], lock_table = True,
         driver = ''sqlite3'', rival = 0, txs = 4\<rparr>)
   \<and> Down toy_engine dir_comment_down False
       \<lparr>objects = [''users''], ledger = Some [1], lock_table = True,
          driver = ''sqlite3'', rival = 0, txs = 1\<rparr> =
       (Some (Wrapf ''error eliminando registro de migracion: %w'' []
                (DbError ''database is locked'')),
        \<lparr>objects = [''users''], ledger = Some [1], lock_table = True,
           driver = ''sqlite3'', rival = 0, txs = 2\<rparr>)
   \<and> Down toy_engine dir123 False
       \<lparr>objects = [''users'', ''posts'', ''tags''], ledger = Some [1, 2, 3], lock_table = False,
          driver = ''postgres'', rival = 0, txs = 3\<rparr> =
       (None, \<lparr>objects = [''users'', ''posts''], ledger = Some [1, 2], lock_table = False,
                 driver = ''postgres'', rival = 0, txs = 4\<rparr>)"
  by code_simp

subsection \<open>The loop of DownN\<close>

lemma migrationMap_Some:
  assumes "fold (\<lambda>m mm. mm(Version m \<mapsto> m)) ms mm0 v = Some t"
  shows "(t \<in> set ms \<and> Version t = v) \<or> mm0 v = Some t"
  using assms
proof (induction ms arbitrary: mm0)
  case Nil
  then show ?case by simp
next
  case (Cons m ms)
  from Cons.prems have "fold (\<lambda>m mm. mm(Version m \<mapsto> m)) ms (mm0(Version m \<mapsto> m)) v = Some t"
    by (simp only: fold_simps)
  from Cons.IH [OF this] show ?case
    by (auto split: if_splits)
qed

lemma migrationMap_keyed:
  "fold (\<lambda>m mm. mm(Version m \<mapsto> m)) ms Map.empty v = Some t \<Longrightarrow> t \<in> set ms \<and> Version t = v"
  using migrationMap_Some [of ms Map.empty v t] by simp

lemma DownN_body_eq:
  "DownN_body eng dir n d b w =
     (case Load dir of
        Inl e \<Rightarrow> (Some (Wrapf ''error cargando migraciones: %w'' [] e), w)
      | Inr ms \<Rightarrow>
          (case ledger w of
             None \<Rightarrow>
               (Some (Wrapf ''error obteniendo migraciones aplicadas: %w'' []
                        (DbError ''no such table: schema_migrations'')), w)
           | Some rows \<Rightarrow>
               if rows = [] then (Some (New ''no hay migraciones para revertir''), w)
               else if n > int (length rows)
               then (Some (Newf ''solo hay %d migraci(ones) aplicada(s), no se pueden revertir %d''
                             [int (length rows), n]), w)
               else downN_loop eng b (fold (\<lambda>m mm. mm(Version m \<mapsto> m)) ms Map.empty) d
                      (rev (drop (length rows - nat n) (sort rows))) w))"
proof (cases "Load dir")
  case (Inl e)
  then show ?thesis by (simp add: DownN_body_def)
next
  case (Inr ms)
  show ?thesis
  proof (cases "ledger w")
    case None
    then show ?thesis by (simp add: DownN_body_def applied_def Inr)
  next
    case (Some rows)
    then show ?thesis by (simp add: DownN_body_def applied_def Inr Let_def)
  qed
qed

lemma DownN_tx_cases:
  assumes "DownN_tx eng b t w = (r, w1)"
  shows "(r = None \<and> (\<exists>ob rows. eng (DownSQL t) (objects w) = (ob, None) \<and> ledger w = Some rows
            \<and> w1 = w\<lparr>objects := ob, ledger := Some (filter (\<lambda>x. x \<noteq> Version t) rows),
                      txs := Suc (txs w)\<rparr>))
         \<or> (\<exists>s a e. r = Some (Wrapf s a e) \<and> w1 = w\<lparr>txs := Suc (txs w)\<rparr>)"
  using assms unfolding DownN_tx_eq
  by (auto split: prod.splits option.splits if_splits)

lemma downN_loop_ok:
  assumes "downN_loop eng b mm False vs w = (None, w')" and "ledger w = Some rows"
    and "\<forall>v t. mm v = Some t \<longrightarrow> Version t = v"
  shows "ledger w' = Some (filter (\<lambda>x. x \<notin> set vs) rows) \<and> txs w' = txs w + length vs
         \<and> set vs \<subseteq> dom mm
         \<and> lock_table w' = lock_table w \<and> driver w' = driver w \<and> rival w' = rival w"
  using assms(1,2)
proof (induction vs arbitrary: w rows)
  case Nil
  then show ?case by simp
next
  case (Cons v vs)
  from Cons.prems(1) obtain t where t: "mm v = Some t" "DownSQL t \<noteq> []"
    by (auto split: option.splits if_splits)
  then have vt: "Version t = v" using assms(3) by blast
  obtain r w1 where x: "DownN_tx eng b t w = (r, w1)" by (cases "DownN_tx eng b t w")
  with Cons.prems(1) t have r: "r = None" and l: "downN_loop eng b mm False vs w1 = (None, w')"
    by (auto split: option.splits)
  from DownN_tx_cases [OF x] r Cons.prems(2) obtain ob where
    w1: "w1 = w\<lparr>objects := ob, ledger := Some (filter (\<lambda>x. x \<noteq> v) rows), txs := Suc (txs w)\<rparr>"
    by (auto simp: vt)
  have l1: "ledger w1 = Some (filter (\<lambda>x. x \<noteq> v) rows)" by (simp add: w1)
  have "filter (\<lambda>x. x \<notin> set vs) (filter (\<lambda>x. x \<noteq> v) rows) = filter (\<lambda>x. x \<notin> set (v # vs)) rows"
    by (auto intro: filter_cong)
  with Cons.IH [OF l l1] show ?case
    using t(1) by (auto simp: w1)
qed

lemma downN_loop_missing:
  assumes "downN_loop eng b mm d vs w = (Some (Newf msg [v]), w')"
  shows "\<exists>pre post. vs = pre @ v # post \<and> downN_loop eng b mm d pre w = (None, w')"
  using assms
proof (induction vs arbitrary: w)
  case Nil
  then show ?case by simp
next
  case (Cons x vs)
  show ?case
  proof (cases "mm x")
    case None
    with Cons.prems have "x = v" "w' = w" by simp_all
    then have "x # vs = [] @ v # vs \<and> downN_loop eng b mm d [] w = (None, w')" by simp
    then show ?thesis by blast
  next
    case (Some t)
    show ?thesis
    proof (cases "DownSQL t = []")
      case True
      with Some Cons.prems have "x = v" "w' = w" by simp_all
      then have "x # vs = [] @ v # vs \<and> downN_loop eng b mm d [] w = (None, w')" by simp
      then show ?thesis by blast
    next
      case False
      show ?thesis
      proof (cases d)
        case True
        with Some False Cons.prems have "downN_loop eng b mm d vs w = (Some (Newf msg [v]), w')"
          by simp
        from Cons.IH [OF this] obtain pre post where
          h: "vs = pre @ v # post" "downN_loop eng b mm d pre w = (None, w')" by blast
        have "x # vs = (x # pre) @ v # post \<and> downN_loop eng b mm d (x # pre) w = (None, w')"
          using h Some False True by simp
        then show ?thesis by blast
      next
        case nd: False
        obtain r w1 where t: "DownN_tx eng b t w = (r, w1)" by (cases "DownN_tx eng b t w")
        from DownN_tx_cases [OF t] Some False nd Cons.prems t
        have r: "r = None" and l: "downN_loop eng b mm d vs w1 = (Some (Newf msg [v]), w')"
          by (auto split: option.splits)
        from Cons.IH [OF l] obtain pre post where
          h: "vs = pre @ v # post" "downN_loop eng b mm d pre w1 = (None, w')" by blast
        have "x # vs = (x # pre) @ v # post \<and> downN_loop eng b mm d (x # pre) w = (None, w')"
          using h Some False nd t r by simp
        then show ?thesis by blast
      qed
    qed
  qed
qed

subsection \<open>Failures of Down and DownN before any transaction\<close>

lemma with_lock_New:
  assumes "with_lock d body w = (Some (New msg), w')"
    and "\<And>b w1 w2. body b w1 = (Some (New msg), w2) \<Longrightarrow> same_db w1 w2"
  shows "same_db w w'"
proof (cases d)
  case True
  with assms show ?thesis by (simp add: with_lock_dry)
next
  case False
  with assms(1) have "with_lock False body w = (Some (New msg), w')" by simp
  then show ?thesis
  proof (cases rule: with_lock_real)
    case (nolocker e0)
    then show ?thesis by simp
  next
    case (busy e0 l l1)
    then show ?thesis by simp
  next
    case (held l l1 w1)
    from Lock_frame [OF held(2)] have "same_db w w1" by simp
    moreover from assms(2) [OF held(3)] have "same_db w1 w'" .
    ultimately show ?thesis by (simp add: same_db_def)
  qed
qed

lemma Down_tx_not_New: "Down_tx eng b t w \<noteq> (Some (New msg), w')"
  unfolding Down_tx_eq by (auto split: prod.splits option.splits)

lemma Down_New:
  assumes "Down eng dir d w = (Some (New msg), w')"
  shows "same_db w w'"
proof -
  have "same_db w1 w2" if "Down_body eng dir d b w1 = (Some (New msg), w2)" for b w1 w2
    using that Down_tx_not_New [of eng b _ w1 msg w2] unfolding Down_body_eq
    by (auto simp: same_db_def split: sum.splits option.splits if_splits)
  with assms show ?thesis
    unfolding Down_def by (rule with_lock_New)
qed

lemma downN_loop_not_New: "downN_loop eng b mm d vs w \<noteq> (Some (New msg), w')"
proof (induction vs arbitrary: w)
  case Nil
  then show ?case by simp
next
  case (Cons v vs)
  show ?case
  proof (cases "mm v")
    case None
    then show ?thesis by simp
  next
    case (Some t)
    obtain r w1 where x: "DownN_tx eng b t w = (r, w1)" by (cases "DownN_tx eng b t w")
    from DownN_tx_cases [OF x] show ?thesis
      using Some x Cons.IH by (auto split: option.splits)
  qed
qed

lemma DownN_New:
  assumes "DownN eng dir n d w = (Some (New msg), w')"
  shows "same_db w w'"
proof (cases "n < 1")
  case True
  with assms show ?thesis by (simp add: DownN_def same_db_def)
next
  case False
  have "same_db w1 w2" if "DownN_body eng dir n d b w1 = (Some (New msg), w2)" for b w1 w2
    using that downN_loop_not_New [of eng b _ d _ w1 msg w2] unfolding DownN_body_eq
    by (auto simp: same_db_def split: sum.splits option.splits if_splits)
  moreover from assms False have "with_lock d (DownN_body eng dir n d) w = (Some (New msg), w')"
    by (simp add: DownN_def)
  ultimately show ?thesis by (rule with_lock_New [rotated])
qed

lemma DownN_body_missing:
  assumes "DownN_body eng dir n d b w = (Some (Newf msg [v]), w')"
  shows "\<exists>mm pre post.
           (\<forall>v t. mm v = Some t \<longrightarrow> Version t = v) \<and> ledger w = Some (rows_of w)
           \<and> rev (drop (length (rows_of w) - nat n) (sort (rows_of w))) = pre @ v # post
           \<and> downN_loop eng b mm d pre w = (None, w')"
proof -
  from assms obtain ms rows where
    h: "Load dir = Inr ms" "ledger w = Some rows"
       "downN_loop eng b (fold (\<lambda>m mm. mm(Version m \<mapsto> m)) ms Map.empty) d
          (rev (drop (length rows - nat n) (sort rows))) w = (Some (Newf msg [v]), w')"
    unfolding DownN_body_eq
    by (auto split: sum.splits option.splits if_splits)
  define mm where "mm = fold (\<lambda>m mm. mm(Version m \<mapsto> m)) ms Map.empty"
  have k: "\<forall>v t. mm v = Some t \<longrightarrow> Version t = v"
    unfolding mm_def by (intro allI impI) (rule migrationMap_keyed [THEN conjunct2])
  have r: "rows_of w = rows" using h(2) by (simp add: rows_of_def)
  have l: "downN_loop eng b mm d (rev (drop (length rows - nat n) (sort rows))) w
             = (Some (Newf msg [v]), w')"
    using h(3) by (simp only: mm_def)
  from downN_loop_missing [OF l] obtain pre post where
    p: "rev (drop (length rows - nat n) (sort rows)) = pre @ v # post"
       "downN_loop eng b mm d pre w = (None, w')"
    by blast
  have "ledger w = Some (rows_of w)" using h(2) r by simp
  with k p show ?thesis unfolding r by blast
qed

lemma DownN_missing:
  assumes "DownN eng dir n d w = (Some (Newf msg [v]), w')"
  shows "\<exists>pre post.
           rev (drop (length (rows_of w) - nat n) (sort (rows_of w))) = pre @ v # post
           \<and> (d \<longrightarrow> w' = w)
           \<and> (\<not> d \<longrightarrow> ledger w' = Some (filter (\<lambda>x. x \<notin> set pre) (rows_of w))
                        \<and> txs w' = txs w + length pre)
           \<and> (pre = [] \<longrightarrow> same_db w w')"
proof -
  from assms have n: "\<not> n < 1" by (auto simp: DownN_def)
  with assms have W: "with_lock d (DownN_body eng dir n d) w = (Some (Newf msg [v]), w')"
    by (simp add: DownN_def)
  show ?thesis
  proof (cases d)
    case True
    with W have "DownN_body eng dir n True False w = (Some (Newf msg [v]), w')"
      by (simp add: with_lock_dry)
    from DownN_body_missing [OF this] obtain mm pre post where
      h: "rev (drop (length (rows_of w) - nat n) (sort (rows_of w))) = pre @ v # post"
         "downN_loop eng False mm True pre w = (None, w')"
      by blast
    have "snd (downN_loop eng False mm True pre w) = w" by (rule downN_loop_dry)
    then have e: "w' = w" by (simp add: h(2))
    then have "same_db w w'" by (simp add: same_db_def)
    with h(1) True e show ?thesis
      by (intro exI [of _ pre] exI [of _ post] conjI impI) simp_all
  next
    case False
    with W have "with_lock False (DownN_body eng dir n False) w = (Some (Newf msg [v]), w')"
      by simp
    then show ?thesis
    proof (cases rule: with_lock_real)
      case (nolocker e0)
      then show ?thesis by simp
    next
      case (busy e0 l l1)
      then show ?thesis by simp
    next
      case (held l l1 w1)
      from Lock_frame [OF held(2)] have f: "same_db w w1" by simp
      then have r: "rows_of w1 = rows_of w" by (simp add: rows_of_def same_db_def)
      from DownN_body_missing [OF held(3)] obtain mm pre post where
        h: "\<forall>v t. mm v = Some t \<longrightarrow> Version t = v"
           "ledger w1 = Some (rows_of w)"
           "rev (drop (length (rows_of w) - nat n) (sort (rows_of w))) = pre @ v # post"
           "downN_loop eng (driver w = ''sqlite3'') mm False pre w1 = (None, w')"
        unfolding r by blast
      from downN_loop_ok [OF h(4) h(2) h(1)] have
        a: "ledger w' = Some (filter (\<lambda>x. x \<notin> set pre) (rows_of w))" "txs w' = txs w1 + length pre"
        by simp_all
      have b: "same_db w w'" if "pre = []"
        using h(4) f that by simp
      have c: "txs w' = txs w + length pre"
        using a(2) f by (simp add: same_db_def)
      show ?thesis
        using False by (intro exI [of _ pre] exI [of _ post] conjI impI h(3) a(1) c b) simp_all
    qed
  qed
qed

text \<open>
  C5, as the code has it. When \<^verbatim>\<open>Down\<close> or \<^verbatim>\<open>DownN\<close> returns one of its plain errors (for
  \<^verbatim>\<open>Down\<close>: nothing to roll back, no revert script found; for \<^verbatim>\<open>DownN\<close>: non-positive
  steps, nothing applied), no transaction was opened and objects and ledger are
  unchanged. When \<^verbatim>\<open>DownN\<close> fails because the artifact or the revert script of version
  \<open>v\<close> is missing, \<open>v\<close> is one of the versions to revert, and the versions \<open>pre\<close> that come
  before it, most recent first, have been reverted, each in its own transaction: the
  ledger is the one of before without them, and as many transactions were opened. The
  state is unchanged in dry-run, and when \<open>v\<close> is the most recent version.
\<close>

theorem C5_revert_failures_and_transactions:
  "(Down eng dir d w = (Some (New msg), w') \<longrightarrow> same_db w w')
   \<and> (DownN eng dir n d w = (Some (New msg), w') \<longrightarrow> same_db w w')
   \<and> (DownN eng dir n d w = (Some (Newf msg [v]), w') \<longrightarrow>
        (\<exists>pre post.
            rev (drop (length (rows_of w) - nat n) (sort (rows_of w))) = pre @ v # post
            \<and> (d \<longrightarrow> w' = w)
            \<and> (\<not> d \<longrightarrow> ledger w' = Some (filter (\<lambda>x. x \<notin> set pre) (rows_of w))
                         \<and> txs w' = txs w + length pre)
            \<and> (pre = [] \<longrightarrow> same_db w w')))"
proof (intro conjI impI)
  assume "Down eng dir d w = (Some (New msg), w')"
  then show "same_db w w'" by (rule Down_New)
next
  assume "DownN eng dir n d w = (Some (New msg), w')"
  then show "same_db w w'" by (rule DownN_New)
next
  assume "DownN eng dir n d w = (Some (Newf msg [v]), w')"
  then show "\<exists>pre post.
            rev (drop (length (rows_of w) - nat n) (sort (rows_of w))) = pre @ v # post
            \<and> (d \<longrightarrow> w' = w)
            \<and> (\<not> d \<longrightarrow> ledger w' = Some (filter (\<lambda>x. x \<notin> set pre) (rows_of w))
                         \<and> txs w' = txs w + length pre)
            \<and> (pre = [] \<longrightarrow> same_db w w')"
    by (rule DownN_missing)
qed

text \<open>
  C5 as the specification words it fails for \<^verbatim>\<open>DownN\<close>: with versions 1 and 2 applied and
  no revert script for version 1, \<^verbatim>\<open>DownN(2)\<close> reverts version 2 in a transaction and only
  then fails on version 1.
\<close>

theorem C5_DownN_missing_script_counterexample:
  "DownN toy_engine dir_no_down 2 False
     \<lparr>objects = [''users'', ''posts''], ledger = Some [1, 2], lock_table = False,
        driver = ''postgres'', rival = 0, txs = 0\<rparr> =
     (Some (Newf ''migracion %d no tiene script down'' [1]),
      \<lparr>objects = [''users''], ledger = Some [1], lock_table = False,
         driver = ''postgres'', rival = 0, txs = 1\<rparr>)"
  by code_simp


text \<open>
  The cases on the example engine: an empty ledger, a missing revert script in dry-run,
  and a missing revert script behind a migration that is reverted.
\<close>

theorem C5_revert_failures_and_transactions_witness:
  "Down toy_engine dir123 False (toy_world ''postgres'' 0 (Some [])) =
     (Some (New ''no migration to rollback''), toy_world ''postgres'' 0 (Some []))
   \<and> DownN toy_engine dir123 1 False (toy_world ''postgres'' 0 (Some [])) =
       (Some (New ''no hay migraciones para revertir''), toy_world ''postgres'' 0 (Some []))
   \<and> same_db (toy_world ''postgres'' 0 (Some []) :: string list world)
        (toy_world ''postgres'' 0 (Some []))
   \<and> DownN toy_engine dir_no_down 1 True (toy_world ''postgres'' 0 (Some [1])) =
       (Some (Newf ''migracion %d no tiene script down'' [1]), toy_world ''postgres'' 0 (Some [1]))
   \<and> DownN toy_engine dir_no_down 2 False
       \<lparr>objects = [''users'', ''posts''], ledger = Some [1, 2], lock_table = False,
          driver = ''postgres'', rival = 0, txs = 0\<rparr> =
       (Some (Newf ''migracion %d no tiene script down'' [1]),
        \<lparr>objects = [''users''], ledger = Some [1], lock_table = False,
           driver = ''postgres'', rival = 0, txs = 1\<rparr>)
   \<and> (\<exists>pre post.
         rev (drop (length [1, 2 :: int] - nat 2) (sort [1, 2 :: int])) = pre @ 1 # post
         \<and> Some [1 :: int] = Some (filter (\<lambda>x. x \<notin> set pre) [1, 2])
         \<and> (1 :: nat) = 0 + length pre)"
proof -
  let ?E = "toy_world ''postgres'' 0 (Some []) :: string list world"
  let ?N = "toy_world ''postgres'' 0 (Some [1]) :: string list world"
  let ?W = "\<lparr>objects = [''users'', ''posts''], ledger = Some [1, 2], lock_table = False,
              driver = ''postgres'', rival = 0, txs = 0\<rparr> :: string list world"
  let ?W' = "\<lparr>objects = [''users''], ledger = Some [1], lock_table = False,
               driver = ''postgres'', rival = 0, txs = 1\<rparr> :: string list world"
  have a: "Down toy_engine dir123 False ?E = (Some (New ''no migration to rollback''), ?E)"
    by code_simp
  have b: "DownN toy_engine dir123 1 False ?E = (Some (New ''no hay migraciones para revertir''), ?E)"
    by code_simp
  have c: "DownN toy_engine dir_no_down 1 True ?N =
             (Some (Newf ''migracion %d no tiene script down'' [1]), ?N)"
    by code_simp
  have d: "DownN toy_engine dir_no_down 2 False ?W =
             (Some (Newf ''migracion %d no tiene script down'' [1]), ?W')"
    by code_simp
  have a': "same_db ?E ?E"
    using C5_revert_failures_and_transactions [THEN conjunct1, THEN mp, OF a] .
  have b': "same_db ?E ?E"
    using C5_revert_failures_and_transactions [THEN conjunct2, THEN conjunct1, THEN mp, OF b] .
  have r: "rows_of ?W = [1, 2]" "ledger ?W' = Some [1]" "txs ?W' = 1" "txs ?W = 0"
    by (simp_all add: rows_of_def)
  have d': "\<exists>pre post.
         rev (drop (length [1, 2 :: int] - nat 2) (sort [1, 2 :: int])) = pre @ 1 # post
         \<and> Some [1 :: int] = Some (filter (\<lambda>x. x \<notin> set pre) [1, 2])
         \<and> (1 :: nat) = 0 + length pre"
    using C5_revert_failures_and_transactions [THEN conjunct2, THEN conjunct2, THEN mp, OF d]
    unfolding r by (elim exE conjE) (simp only: not_False_eq_True simp_thms, blast)
  show ?thesis
    by (intro conjI a b a' c d d')
qed

subsection \<open>DownN followed by Up\<close>

lemma DownN_ok:
  assumes "DownN eng dir n False w = (None, w1)"
  shows "\<exists>ms. Load dir = Inr ms
           \<and> ledger w1 = Some (filter (\<lambda>x. x \<notin> set (drop (length (rows_of w) - nat n)
                                                      (sort (rows_of w)))) (rows_of w))
           \<and> set (drop (length (rows_of w) - nat n) (sort (rows_of w))) \<subseteq> Version ` set ms"
proof -
  from assms have n: "\<not> n < 1" by (auto simp: DownN_def)
  with assms have "with_lock False (DownN_body eng dir n False) w = (None, w1)"
    by (simp add: DownN_def)
  then show ?thesis
  proof (cases rule: with_lock_real)
    case (nolocker e0)
    then show ?thesis by simp
  next
    case (busy e0 l l1)
    then show ?thesis by simp
  next
    case (held l l1 wa)
    from Lock_frame [OF held(2)] have f: "same_db w wa" by simp
    from held(3) obtain ms rows where
      h: "Load dir = Inr ms" "ledger wa = Some rows"
         "downN_loop eng (driver w = ''sqlite3'') (fold (\<lambda>m mm. mm(Version m \<mapsto> m)) ms Map.empty)
            False (rev (drop (length rows - nat n) (sort rows))) wa = (None, w1)"
      unfolding DownN_body_eq
      by (auto split: sum.splits option.splits if_splits)
    have "ledger w = Some rows" using h(2) f by (simp add: same_db_def)
    then have r: "rows_of w = rows" by (simp add: rows_of_def)
    define mm where "mm = fold (\<lambda>m mm. mm(Version m \<mapsto> m)) ms Map.empty"
    have k: "\<forall>v t. mm v = Some t \<longrightarrow> Version t = v"
      unfolding mm_def by (intro allI impI) (rule migrationMap_keyed [THEN conjunct2])
    have dm: "dom mm \<subseteq> Version ` set ms"
    proof
      fix v assume "v \<in> dom mm"
      then obtain t where "mm v = Some t" by blast
      then have "t \<in> set ms \<and> Version t = v"
        unfolding mm_def by (rule migrationMap_keyed)
      then show "v \<in> Version ` set ms" by blast
    qed
    have l: "downN_loop eng (driver w = ''sqlite3'') mm False
               (rev (drop (length rows - nat n) (sort rows))) wa = (None, w1)"
      using h(3) by (simp only: mm_def)
    from downN_loop_ok [OF l h(2) k] have
      "ledger w1 = Some (filter (\<lambda>x. x \<notin> set (drop (length rows - nat n) (sort rows))) rows)"
      "set (drop (length rows - nat n) (sort rows)) \<subseteq> dom mm"
      by simp_all
    with dm h(1) show ?thesis unfolding r by blast
  qed
qed

text \<open>
  C4, as the code has it. When \<^verbatim>\<open>DownN\<close> succeeds, the \<^verbatim>\<open>Up\<close> that follows on the same
  directory succeeds, and every loaded version was in the ledger before \<^verbatim>\<open>DownN\<close>, the
  ledger after \<^verbatim>\<open>Up\<close> holds the versions it held before \<^verbatim>\<open>DownN\<close>.
\<close>

theorem C4_DownN_then_Up_round_trip:
  assumes "DownN eng dir n False w = (None, w1)" and "Up eng dir False w1 = (None, w2)"
    and "Load dir = Inr ms" and "Version ` set ms \<subseteq> set (rows_of w)"
  shows "ledger w2 \<noteq> None \<and> set (rows_of w2) = set (rows_of w)"
proof -
  let ?T = "set (drop (length (rows_of w) - nat n) (sort (rows_of w)))"
  from DownN_ok [OF assms(1)] assms(3) have
    d: "ledger w1 = Some (filter (\<lambda>x. x \<notin> ?T) (rows_of w))" "?T \<subseteq> Version ` set ms"
    by auto
  have r1: "rows_of w1 = filter (\<lambda>x. x \<notin> ?T) (rows_of w)" using d(1) by (simp add: rows_of_def)
  from Up_ok [OF assms(2)] assms(3) have
    u: "ledger w2 = Some (rows_of w1 @ map Version (pending (rows_of w1) ms))"
    by auto
  then have r2: "rows_of w2 = rows_of w1 @ map Version (pending (rows_of w1) ms)"
    by (simp add: rows_of_def)
  have "set (rows_of w2) = set (rows_of w1) \<union> Version ` set ms"
    unfolding r2 by (auto simp: set_pending)
  also have "\<dots> = (set (rows_of w) - ?T) \<union> Version ` set ms"
    unfolding r1 by auto
  also have "\<dots> = set (rows_of w)"
    using d(2) assms(4) by blast
  finally show ?thesis using u by simp
qed

text \<open>
  C4 as the specification words it fails when a loaded migration was pending before
  \<^verbatim>\<open>DownN\<close>: with versions 1 and 2 applied out of three, \<^verbatim>\<open>DownN(1)\<close> then \<^verbatim>\<open>Up\<close> leaves
  1, 2 and 3 applied. It also fails when the \<^verbatim>\<open>Up\<close> that follows fails: the reverted
  version stays reverted.
\<close>

theorem C4_pending_before_DownN_counterexample:
  "DownN toy_engine dir123 1 False
     \<lparr>objects = [''users'', ''posts''], ledger = Some [1, 2], lock_table = False,
        driver = ''postgres'', rival = 0, txs = 0\<rparr> =
     (None, \<lparr>objects = [''users''], ledger = Some [1], lock_table = False,
               driver = ''postgres'', rival = 0, txs = 1\<rparr>)
   \<and> Up toy_engine dir123 False
       \<lparr>objects = [''users''], ledger = Some [1], lock_table = False,
          driver = ''postgres'', rival = 0, txs = 1\<rparr> =
     (None, \<lparr>objects = [''users'', ''posts'', ''tags''], ledger = Some [1, 2, 3],
               lock_table = False, driver = ''postgres'', rival = 0, txs = 3\<rparr>)
   \<and> set [1, 2, 3 :: int] \<noteq> set [1, 2]
   \<and> DownN toy_engine dir_bad_up 1 False
       \<lparr>objects = [''test1'', ''test2''], ledger = Some [1], lock_table = False,
          driver = ''postgres'', rival = 0, txs = 0\<rparr> =
     (None, \<lparr>objects = [], ledger = Some [], lock_table = False,
               driver = ''postgres'', rival = 0, txs = 1\<rparr>)
   \<and> Up toy_engine dir_bad_up False
       \<lparr>objects = [], ledger = Some [], lock_table = False,
          driver = ''postgres'', rival = 0, txs = 1\<rparr> =
     (Some (Wrapf ''up %d failed: %w'' [1] (DbError ''syntax error'')),
      \<lparr>objects = [], ledger = Some [], lock_table = False,
         driver = ''postgres'', rival = 0, txs = 2\<rparr>)"
  by code_simp

text \<open>
  Three applied migrations, two reverted and applied again.
\<close>

theorem C4_DownN_then_Up_round_trip_witness:
  "DownN toy_engine dir123 2 False
     \<lparr>objects = [''users'', ''posts'', ''tags''], ledger = Some [1, 2, 3], lock_table = False,
        driver = ''postgres'', rival = 0, txs = 3\<rparr> =
     (None, \<lparr>objects = [''users''], ledger = Some [1], lock_table = False,
               driver = ''postgres'', rival = 0, txs = 5\<rparr>)
   \<and> Up toy_engine dir123 False
       \<lparr>objects = [''users''], ledger = Some [1], lock_table = False,
          driver = ''postgres'', rival = 0, txs = 5\<rparr> =
     (None, \<lparr>objects = [''users'', ''posts'', ''tags''], ledger = Some [1, 2, 3],
               lock_table = False, driver = ''postgres'', rival = 0, txs = 7\<rparr>)
   \<and> set (rows_of (\<lparr>objects = [''users'', ''posts'', ''tags''], ledger = Some [1, 2, 3],
                      lock_table = False, driver = ''postgres'', rival = 0, txs = 7\<rparr>
                     :: string list world))
       = set (rows_of (\<lparr>objects = [''users'', ''posts'', ''tags''], ledger = Some [1, 2, 3],
                        lock_table = False, driver = ''postgres'', rival = 0, txs = 3\<rparr>
                       :: string list world))"
proof -
  let ?m1 = "\<lparr>Version = 1, Name = ''users'', UpSQL = ''+users'', DownSQL = ''-users''\<rparr>"
  let ?m2 = "\<lparr>Version = 2, Name = ''posts'', UpSQL = ''+posts'', DownSQL = ''-posts''\<rparr>"
  let ?m3 = "\<lparr>Version = 3, Name = ''tags'', UpSQL = ''+tags'', DownSQL = ''-tags''\<rparr>"
  let ?W = "\<lparr>objects = [''users'', ''posts'', ''tags''], ledger = Some [1, 2, 3], lock_table = False,
              driver = ''postgres'', rival = 0, txs = 3\<rparr> :: string list world"
  let ?W1 = "\<lparr>objects = [''users''], ledger = Some [1], lock_table = False,
               driver = ''postgres'', rival = 0, txs = 5\<rparr> :: string list world"
  let ?W2 = "\<lparr>objects = [''users'', ''posts'', ''tags''], ledger = Some [1, 2, 3],
               lock_table = False, driver = ''postgres'', rival = 0, txs = 7\<rparr> :: string list world"
  have d: "DownN toy_engine dir123 2 False ?W = (None, ?W1)" by code_simp
  have u: "Up toy_engine dir123 False ?W1 = (None, ?W2)" by code_simp
  have ld: "Load dir123 = Inr [?m1, ?m2, ?m3]" by code_simp
  have s: "Version ` set [?m1, ?m2, ?m3] \<subseteq> set (rows_of ?W)" by (simp add: rows_of_def)
  from C4_DownN_then_Up_round_trip [OF d u ld s]
  have "set (rows_of ?W2) = set (rows_of ?W)" by (rule conjunct2)
  with d u show ?thesis by (intro conjI)
qed

end
